theory Spec2Isabelle
  imports Complex_Main
begin

section \<open>Characters and strings\<close>

text \<open>
  A Python \<open>str\<close> is modelled as a \<open>string\<close>: a list of characters with code points
  0 to 255. The character classes below are those of Python 3 on that range
  (\<open>str.isspace\<close>, \<open>str.lower\<close>, and the classes \<open>\s\<close>, \<open>\d\<close>, \<open>\w\<close> of the
  \<open>re\<close> module on \<open>str\<close> patterns).
\<close>

definition cp :: "char \<Rightarrow> nat" where
  "cp c = of_char c"

definition isspace :: "char \<Rightarrow> bool" where
  "isspace c = ((9 \<le> cp c \<and> cp c \<le> 13) \<or> (28 \<le> cp c \<and> cp c \<le> 32)
                 \<or> cp c = 133 \<or> cp c = 160)"

definition isdecimal :: "char \<Rightarrow> bool" where
  "isdecimal c = (48 \<le> cp c \<and> cp c \<le> 57)"

definition isupper :: "char \<Rightarrow> bool" where
  "isupper c = ((65 \<le> cp c \<and> cp c \<le> 90) \<or> (192 \<le> cp c \<and> cp c \<le> 214)
                 \<or> (216 \<le> cp c \<and> cp c \<le> 222))"

definition isalpha :: "char \<Rightarrow> bool" where
  "isalpha c = ((65 \<le> cp c \<and> cp c \<le> 90) \<or> (97 \<le> cp c \<and> cp c \<le> 122)
                 \<or> cp c = 170 \<or> cp c = 181 \<or> cp c = 186
                 \<or> (192 \<le> cp c \<and> cp c \<le> 214) \<or> (216 \<le> cp c \<and> cp c \<le> 246)
                 \<or> 248 \<le> cp c)"

text \<open>\<open>str.isnumeric\<close>: the digits, the superscripts 1, 2, 3 and the three fractions.\<close>

definition isnumeric :: "char \<Rightarrow> bool" where
  "isnumeric c = (isdecimal c \<or> cp c = 178 \<or> cp c = 179 \<or> cp c = 185
                   \<or> (188 \<le> cp c \<and> cp c \<le> 190))"

text \<open>The class \<open>\w\<close>: alphanumeric characters and the underscore.\<close>

definition isword :: "char \<Rightarrow> bool" where
  "isword c = (isalpha c \<or> isnumeric c \<or> cp c = 95)"

definition lower_char :: "char \<Rightarrow> char" where
  "lower_char c = (if isupper c then char_of (cp c + 32) else c)"

definition lower :: "string \<Rightarrow> string" where
  "lower s = map lower_char s"

text \<open>
  \<open>str.upper\<close>. The sharp s becomes two letters. The upper case of the micro sign and
  of y with diaeresis lies beyond code point 255: the two are left as they are, which
  changes no comparison with, and no search for, text over the first 128 code points.
\<close>

definition upper_char :: "char \<Rightarrow> string" where
  "upper_char c = (if (97 \<le> cp c \<and> cp c \<le> 122) \<or> (224 \<le> cp c \<and> cp c \<le> 246)
                       \<or> (248 \<le> cp c \<and> cp c \<le> 254)
                   then [char_of (cp c - 32)]
                   else if cp c = 223 then ''SS'' else [c])"

definition upper :: "string \<Rightarrow> string" where
  "upper s = concat (map upper_char s)"

definition lstrip :: "string \<Rightarrow> string" where
  "lstrip s = dropWhile isspace s"

definition rstrip :: "string \<Rightarrow> string" where
  "rstrip s = rev (dropWhile isspace (rev s))"

definition strip :: "string \<Rightarrow> string" where
  "strip s = rstrip (lstrip s)"

text \<open>\<open>s.rstrip(chars)\<close> for a one-character argument.\<close>

definition rstrip_char :: "char \<Rightarrow> string \<Rightarrow> string" where
  "rstrip_char x s = rev (dropWhile (\<lambda>c. c = x) (rev s))"

text \<open>\<open>s.replace(old, new)\<close> for one-character \<open>old\<close> and \<open>new\<close>: every occurrence.\<close>

definition replace_char :: "char \<Rightarrow> char \<Rightarrow> string \<Rightarrow> string" where
  "replace_char old new s = map (\<lambda>c. if c = old then new else c) s"

fun starts_with :: "string \<Rightarrow> string \<Rightarrow> bool" where
  "starts_with [] s = True"
| "starts_with (p # ps) [] = False"
| "starts_with (p # ps) (c # cs) = (p = c \<and> starts_with ps cs)"

text \<open>The value of a run of decimal digits, as \<open>int\<close> reads it.\<close>

definition digits_val :: "string \<Rightarrow> nat" where
  "digits_val ds = foldl (\<lambda>a c. 10 * a + (cp c - 48)) 0 ds"

section \<open>Values and exceptions\<close>

datatype exn_class =
    ValueError | TypeError | OverflowError | ImportError | ModuleNotFoundError
  | RuntimeError | FileNotFoundError | AuthenticationError | SpreadsheetNotFound
  | OtherException string
  | KeyboardInterrupt | SystemExit

text \<open>An exception: its class, its message and the exception it was raised from.\<close>

datatype exn = Exn exn_class string "exn option"

fun exn_cls :: "exn \<Rightarrow> exn_class" where
  "exn_cls (Exn c m e) = c"

text \<open>What \<open>except Exception\<close> catches: everything but the two interpreter signals.\<close>

fun is_Exception :: "exn \<Rightarrow> bool" where
  "is_Exception (Exn c m e) = (c \<noteq> KeyboardInterrupt \<and> c \<noteq> SystemExit)"

text \<open>What \<open>except ImportError\<close> catches: the class and its subclass.\<close>

fun is_ImportError :: "exn \<Rightarrow> bool" where
  "is_ImportError (Exn c m e) = (c = ImportError \<or> c = ModuleNotFoundError)"

text \<open>What \<open>except (ValueError, TypeError)\<close> catches.\<close>

fun is_Value_or_TypeError :: "exn \<Rightarrow> bool" where
  "is_Value_or_TypeError (Exn c m e) = (c = ValueError \<or> c = TypeError)"

text \<open>
  A float is represented by the exact value of the numeral or integer it was converted
  from; the rounding to the nearest binary64 value is not modelled, so two floats that
  are equal here are equal in Python.
\<close>

datatype pyfloat = Finite rat | Infinity bool | NaN

record date =
  year :: nat
  month :: nat
  day :: nat

record daytime =
  hour :: nat
  minute :: nat
  second :: nat
  microsecond :: nat

text \<open>
  The values a cell or an argument of type \<open>Any\<close> can hold. \<open>PDatetime\<close> is an instance
  of \<open>datetime\<close>, a subclass of \<open>date\<close>; \<open>PObj\<close> is any other object, by its type name.
\<close>

datatype pyval =
    PNone | PBool bool | PInt int | PFloat pyfloat | PStr string
  | PDate date | PDatetime date daytime | PObj string

section \<open>The built-in conversions\<close>

text \<open>
  \<open>float(n)\<close> for an \<open>int\<close>: an integer that rounds beyond the largest binary64 value
  raises \<open>OverflowError\<close>.
\<close>

definition float_of_int :: "int \<Rightarrow> exn + pyfloat" where
  "float_of_int n =
     (if \<bar>n\<bar> \<ge> 2 ^ 1024 - 2 ^ 970
      then Inl (Exn OverflowError ''int too large to convert to float'' None)
      else Inr (Finite (of_int n)))"

text \<open>
  \<open>float(s)\<close> for a \<open>str\<close>. Underscores are allowed only between two digits, and are
  then dropped.
\<close>

fun drop_underscores :: "char \<Rightarrow> string \<Rightarrow> string option" where
  "drop_underscores prev [] = (if prev = CHR ''_'' then None else Some [])"
| "drop_underscores prev (c # cs) =
     (if c = CHR ''_'' then
        (if isdecimal prev then drop_underscores c cs else None)
      else if prev = CHR ''_'' \<and> \<not> isdecimal c then None
      else map_option ((#) c) (drop_underscores c cs))"

definition ascii_lower :: "string \<Rightarrow> string" where
  "ascii_lower s = map (\<lambda>c. if 65 \<le> cp c \<and> cp c \<le> 90 then char_of (cp c + 32) else c) s"

definition pow10 :: "int \<Rightarrow> rat" where
  "pow10 e = (if 0 \<le> e then 10 ^ nat e else 1 / 10 ^ nat (- e))"

text \<open>The exponent part: empty, or \<open>e\<close>, an optional sign and at least one digit.\<close>

definition parse_exponent :: "string \<Rightarrow> int option" where
  "parse_exponent r =
     (case r of
        [] \<Rightarrow> Some 0
      | c # r1 \<Rightarrow>
          if c = CHR ''e'' \<or> c = CHR ''E'' then
            (let neg = (r1 \<noteq> [] \<and> hd r1 = CHR ''-'');
                 r2 = (if r1 \<noteq> [] \<and> (hd r1 = CHR ''-'' \<or> hd r1 = CHR ''+'') then tl r1 else r1)
             in if r2 \<noteq> [] \<and> list_all isdecimal r2
                then Some (if neg then - int (digits_val r2) else int (digits_val r2))
                else None)
          else None)"

text \<open>An unsigned decimal numeral: digits, an optional point and digits, an exponent.\<close>

definition parse_decimal :: "string \<Rightarrow> rat option" where
  "parse_decimal t =
     (let ip = takeWhile isdecimal t;
          r1 = dropWhile isdecimal t;
          fp = (if r1 \<noteq> [] \<and> hd r1 = CHR ''.'' then takeWhile isdecimal (tl r1) else []);
          r2 = (if r1 \<noteq> [] \<and> hd r1 = CHR ''.'' then dropWhile isdecimal (tl r1) else r1)
      in if ip = [] \<and> fp = [] then None
         else (case parse_exponent r2 of
                 None \<Rightarrow> None
               | Some e \<Rightarrow> Some (of_nat (digits_val (ip @ fp)) * pow10 (e - int (length fp)))))"

definition float_of_str :: "string \<Rightarrow> exn + pyfloat" where
  "float_of_str s =
     (let err = Inl (Exn ValueError ''could not convert string to float'' None) in
      case drop_underscores (CHR 0x00) (strip s) of
        None \<Rightarrow> err
      | Some t \<Rightarrow>
          (let neg = (t \<noteq> [] \<and> hd t = CHR ''-'');
               u = (if t \<noteq> [] \<and> (hd t = CHR ''-'' \<or> hd t = CHR ''+'') then tl t else t)
           in if ascii_lower u = ''inf'' \<or> ascii_lower u = ''infinity'' then Inr (Infinity neg)
              else if ascii_lower u = ''nan'' then Inr NaN
              else (case parse_decimal u of
                      None \<Rightarrow> err
                    | Some q \<Rightarrow> Inr (Finite (if neg then - q else q)))))"

section \<open>Dates\<close>

definition is_leap :: "nat \<Rightarrow> bool" where
  "is_leap y = (y mod 4 = 0 \<and> (y mod 100 \<noteq> 0 \<or> y mod 400 = 0))"

definition days_in_month :: "nat \<Rightarrow> nat \<Rightarrow> nat" where
  "days_in_month y m =
     (if m = 2 then (if is_leap y then 29 else 28)
      else if m = 4 \<or> m = 6 \<or> m = 9 \<or> m = 11 then 30 else 31)"

text \<open>The constructor \<open>date(y, m, d)\<close>, which raises \<open>ValueError\<close> out of range.\<close>

definition make_date :: "nat \<Rightarrow> nat \<Rightarrow> nat \<Rightarrow> exn + date" where
  "make_date y m d =
     (if 1 \<le> y \<and> y \<le> 9999 \<and> 1 \<le> m \<and> m \<le> 12 \<and> 1 \<le> d \<and> d \<le> days_in_month y m
      then Inr \<lparr>year = y, month = m, day = d\<rparr>
      else Inl (Exn ValueError ''day is out of range for month'' None))"

text \<open>
  \<open>datetime.strptime(s, '%d/%m/%y')\<close>. The format is compiled to a regular expression
  and matched at the start of the text; each directive is an alternation tried in
  order, with backtracking. A parser returns every way to match, in the order the
  regular expression engine tries them, with the text that remains.

  \<open>%d\<close> is \<open>3[0-1]|[1-2]\d|0[1-9]|[1-9]| [1-9]\<close>, \<open>%m\<close> is \<open>1[0-2]|0[1-9]|[1-9]\<close> and
  \<open>%y\<close> is \<open>\d\d\<close>.
\<close>

definition in_range :: "char \<Rightarrow> char \<Rightarrow> char \<Rightarrow> bool" where
  "in_range lo hi c = (cp lo \<le> cp c \<and> cp c \<le> cp hi)"

text \<open>Two characters from two classes, read as a two-digit number (a space counts 0).\<close>

definition two_chars :: "(char \<Rightarrow> bool) \<Rightarrow> (char \<Rightarrow> bool) \<Rightarrow> string \<Rightarrow> (nat \<times> string) list" where
  "two_chars p q s =
     (case s of
        a # b # r \<Rightarrow> if p a \<and> q b then [(digits_val (filter isdecimal [a, b]), r)] else []
      | _ \<Rightarrow> [])"

definition one_char :: "(char \<Rightarrow> bool) \<Rightarrow> string \<Rightarrow> (nat \<times> string) list" where
  "one_char p s = (case s of a # r \<Rightarrow> if p a then [(digits_val [a], r)] else [] | _ \<Rightarrow> [])"

definition day_directive :: "string \<Rightarrow> (nat \<times> string) list" where
  "day_directive s =
     two_chars (\<lambda>c. c = CHR ''3'') (in_range CHR ''0'' CHR ''1'') s
     @ two_chars (in_range CHR ''1'' CHR ''2'') isdecimal s
     @ two_chars (\<lambda>c. c = CHR ''0'') (in_range CHR ''1'' CHR ''9'') s
     @ one_char (in_range CHR ''1'' CHR ''9'') s
     @ two_chars (\<lambda>c. c = CHR '' '') (in_range CHR ''1'' CHR ''9'') s"

definition month_directive :: "string \<Rightarrow> (nat \<times> string) list" where
  "month_directive s =
     two_chars (\<lambda>c. c = CHR ''1'') (in_range CHR ''0'' CHR ''2'') s
     @ two_chars (\<lambda>c. c = CHR ''0'') (in_range CHR ''1'' CHR ''9'') s
     @ one_char (in_range CHR ''1'' CHR ''9'') s"

definition year_directive :: "string \<Rightarrow> (nat \<times> string) list" where
  "year_directive s = two_chars isdecimal isdecimal s"

definition slash :: "string \<Rightarrow> string list" where
  "slash s = (case s of c # r \<Rightarrow> if c = CHR ''/'' then [r] else [] | _ \<Rightarrow> [])"

definition match_dmy :: "string \<Rightarrow> (nat \<times> nat \<times> nat \<times> string) list" where
  "match_dmy s =
     concat (map (\<lambda>(d, r1).
       concat (map (\<lambda>r2.
         concat (map (\<lambda>(m, r3).
           concat (map (\<lambda>r4.
             map (\<lambda>(y, r5). (d, m, y, r5)) (year_directive r4))
           (slash r3)))
         (month_directive r2)))
       (slash r1)))
     (day_directive s))"

definition strptime_dmy :: "string \<Rightarrow> exn + date" where
  "strptime_dmy s =
     (case match_dmy s of
        [] \<Rightarrow> Inl (Exn ValueError ''time data does not match format'' None)
      | (d, m, y, r) # _ \<Rightarrow>
          if r \<noteq> [] then Inl (Exn ValueError ''unconverted data remains'' None)
          else make_date (if y < 69 then 2000 + y else 1900 + y) m d)"

section \<open>The value coercers\<close>

text \<open>\<open>parse_percentage\<close>: only the conversion of a string is inside the \<open>try\<close>.\<close>

definition parse_percentage :: "pyval \<Rightarrow> exn + pyfloat option" where
  "parse_percentage v =
     (case v of
        PBool b \<Rightarrow> Inr (Some (Finite (if b then 1 else 0)))
      | PInt n \<Rightarrow> (case float_of_int n of Inl e \<Rightarrow> Inl e | Inr f \<Rightarrow> Inr (Some f))
      | PFloat f \<Rightarrow> Inr (Some f)
      | PStr s \<Rightarrow>
          (let cleaned_value = strip (rstrip_char CHR ''%'' (strip (replace_char CHR '','' CHR ''.'' s)))
           in if cleaned_value \<noteq> [] then
                (case float_of_str cleaned_value of
                   Inr f \<Rightarrow> Inr (Some f)
                 | Inl e \<Rightarrow> if is_Value_or_TypeError e then Inr None else Inl e)
              else Inr None)
      | _ \<Rightarrow> Inr None)"

text \<open>\<open>parse_date\<close>: an instance of \<open>date\<close> or of a subclass is returned as it is.\<close>

definition parse_date :: "pyval \<Rightarrow> exn + pyval option" where
  "parse_date v =
     (case v of
        PDate d \<Rightarrow> Inr (Some (PDate d))
      | PDatetime d t \<Rightarrow> Inr (Some (PDatetime d t))
      | PStr s \<Rightarrow>
          (let cleaned_value = strip s
           in if cleaned_value = [] then Inr None
              else (case strptime_dmy cleaned_value of
                      Inr d \<Rightarrow> Inr (Some (PDate d))
                    | Inl e \<Rightarrow> if is_Value_or_TypeError e then Inr None else Inl e))
      | _ \<Rightarrow> Inr None)"

section \<open>The name normalizer\<close>

text \<open>
  A word boundary \<open>\b\<close> lies between two positions when exactly one of the characters
  on its two sides is a word character; the start and the end of the text count as
  not a word character.
\<close>

definition word_opt :: "char option \<Rightarrow> bool" where
  "word_opt c = (case c of None \<Rightarrow> False | Some x \<Rightarrow> isword x)"

definition boundary :: "char option \<Rightarrow> char option \<Rightarrow> bool" where
  "boundary behind ahead = (word_opt behind \<noteq> word_opt ahead)"

definition first_char :: "string \<Rightarrow> char option" where
  "first_char s = (case s of [] \<Rightarrow> None | c # cs \<Rightarrow> Some c)"

text \<open>Under \<open>re.IGNORECASE\<close> a literal matches a character with the same lower case.\<close>

fun starts_with_ci :: "string \<Rightarrow> string \<Rightarrow> bool" where
  "starts_with_ci [] s = True"
| "starts_with_ci (p # ps) [] = False"
| "starts_with_ci (p # ps) (c # cs) = (lower_char p = lower_char c \<and> starts_with_ci ps cs)"

text \<open>
  One alternative \<open>t\<close> of a pattern \<open>\b(...|t|...)\b\<close> at a position: the literal, then
  a word boundary.
\<close>

definition alternative_matches :: "string \<Rightarrow> string \<Rightarrow> bool" where
  "alternative_matches s t =
     (starts_with_ci t s
      \<and> boundary (if t = [] then None else Some (last (take (length t) s)))
                  (first_char (drop (length t) s)))"

text \<open>
  The length of the match of \<open>\b(t1|...|tn)\b\<close>, followed by \<open>\.?\<close> when \<open>dot\<close> is set,
  at a position with the text \<open>s\<close> ahead and the character \<open>prev\<close> behind. The
  alternatives are tried in order; the optional full stop is taken when it is there.
\<close>

definition match_title_at :: "string list \<Rightarrow> bool \<Rightarrow> char option \<Rightarrow> string \<Rightarrow> nat option" where
  "match_title_at alts dot prev s =
     (if \<not> boundary prev (first_char s) then None
      else (case find (alternative_matches s) alts of
              None \<Rightarrow> None
            | Some t \<Rightarrow>
                Some (length t
                      + (if dot \<and> first_char (drop (length t) s) = Some CHR ''.'' then 1 else 0))))"

text \<open>
  \<open>re.sub(pattern, '', s, flags=re.IGNORECASE)\<close> for such a pattern: the text is
  scanned from the left; a match is dropped and the scan goes on behind it, any other
  character is kept.
\<close>

fun sub_titles :: "string list \<Rightarrow> bool \<Rightarrow> char option \<Rightarrow> string \<Rightarrow> string" where
  "sub_titles alts dot prev [] = []"
| "sub_titles alts dot prev (c # cs) =
     (case match_title_at alts dot prev (c # cs) of
        None \<Rightarrow> c # sub_titles alts dot (Some c) cs
      | Some n \<Rightarrow>
          if n = 0 then c # sub_titles alts dot (Some c) cs
          else sub_titles alts dot (Some (last (take n (c # cs)))) (drop n (c # cs)))"

definition re_sub_titles :: "string list \<Rightarrow> bool \<Rightarrow> string \<Rightarrow> string" where
  "re_sub_titles alts dot s = sub_titles alts dot None s"

text \<open>\<open>re.sub(r'\s+', ' ', s)\<close>: every maximal run of whitespace becomes one space.\<close>

function collapse_ws :: "string \<Rightarrow> string" where
  "collapse_ws [] = []"
| "collapse_ws (c # cs) =
     (if isspace c then CHR '' '' # collapse_ws (dropWhile isspace cs)
      else c # collapse_ws cs)"
  by pat_completeness auto
termination
  by (relation "measure length") (auto simp: length_dropWhile_le less_Suc_eq_le)

text \<open>The alternatives of the two patterns of \<open>titles_to_remove\<close>.\<close>

definition short_titles :: "string list" where
  "short_titles = [''lic'', ''dr'', ''ing'', ''arq'', ''ms'', ''msc'', ''sr'', ''sra'', ''srta'']"

definition long_titles :: "string list" where
  "long_titles = [''licenciado'', ''doctor'', ''ingeniero'', ''maestro'']"

definition preprocess_name :: "pyval \<Rightarrow> string" where
  "preprocess_name name =
     (case name of
        PStr n \<Rightarrow>
          (let processed_name = lower n;
               processed_name = strip (re_sub_titles short_titles True processed_name);
               processed_name = strip (re_sub_titles long_titles False processed_name)
           in strip (collapse_ws processed_name))
      | _ \<Rightarrow> [])"

text \<open>
  The words of a text: its maximal runs of word characters, which are the pieces a
  pattern \<open>\bt\b\<close> can match. The honorifics the specification lists. A run of two
  whitespace characters.
\<close>

function word_runs :: "string \<Rightarrow> string list" where
  "word_runs [] = []"
| "word_runs (c # cs) =
     (if isword c then takeWhile isword (c # cs) # word_runs (dropWhile isword cs)
      else word_runs cs)"
  by pat_completeness auto
termination
  by (relation "measure length") (auto simp: length_dropWhile_le less_Suc_eq_le)

definition honorifics :: "string list" where
  "honorifics = [''lic'', ''dr'', ''ing'', ''sr'', ''sra'', ''srta'',
                 ''licenciado'', ''doctor'', ''ingeniero'', ''maestro'']"

fun has_space_run :: "string \<Rightarrow> bool" where
  "has_space_run (a # b # r) = ((isspace a \<and> isspace b) \<or> has_space_run (b # r))"
| "has_space_run r = False"

section \<open>The grid extractor\<close>

text \<open>
  The frame \<open>get_as_df\<close> returns is read with \<open>numerize=False\<close>: every cell is text. A
  row shorter than the frame is padded, and such a position holds \<open>None\<close>.
\<close>

datatype cell = Text string | NoValue

fun cell_str :: "cell \<Rightarrow> string" where
  "cell_str (Text s) = s"
| "cell_str NoValue = ''None''"

fun cell_val :: "cell \<Rightarrow> pyval" where
  "cell_val (Text s) = PStr s"
| "cell_val NoValue = PNone"

type_synonym row = "cell list"

record record_key =
  grade_level :: string
  periodo :: nat
  paralelo :: char

record period_progress_record = record_key +
  progress_percentage :: pyfloat

record topic_completion_record = record_key +
  tema_number :: string
  tema_title :: string
  completion_date :: pyval

record results =
  period_progress :: "period_progress_record list"
  topic_completion :: "topic_completion_record list"

text \<open>
  A worksheet of the spreadsheet client: its title, the reading of one cell and the
  reading of the fixed window \<open>A3:R358\<close> as a frame. Either reading can raise.
\<close>

record titled =
  title :: string

record worksheet = titled +
  get_value :: "string \<Rightarrow> exn + pyval"
  get_as_df :: "exn + row list"

text \<open>A reading of cells that finds every cell empty.\<close>

definition empty_cells :: "string \<Rightarrow> exn + pyval" where
  "empty_cells a1 = Inr (PStr [])"

text \<open>
  \<open>re.search(r'(\d+)(?:ER|DO|ER|TO|TO|TO) PERIODO', text)\<close>. At a position the greedy
  group takes the whole run of digits; giving a digit back cannot help, since a digit
  would then have to match a letter. The search returns the leftmost match.
\<close>

definition period_match_at :: "string \<Rightarrow> string option" where
  "period_match_at s =
     (let ds = takeWhile isdecimal s; r = dropWhile isdecimal s
      in if ds \<noteq> [] \<and> (starts_with ''ER PERIODO'' r \<or> starts_with ''DO PERIODO'' r
                         \<or> starts_with ''TO PERIODO'' r)
         then Some ds else None)"

fun period_search :: "string \<Rightarrow> string option" where
  "period_search [] = None"
| "period_search (c # cs) =
     (case period_match_at (c # cs) of
        Some ds \<Rightarrow> Some ds
      | None \<Rightarrow> period_search cs)"

record scan_state =
  current_periodo :: nat
  expect_period_progress_next :: bool

definition paralelo_indices :: "(char \<times> nat) list" where
  "paralelo_indices = [(CHR ''A'', 14), (CHR ''B'', 15), (CHR ''C'', 16), (CHR ''D'', 17)]"

text \<open>The two coercers on a cell of the frame, where neither can raise.\<close>

definition cell_percentage :: "cell \<Rightarrow> pyfloat option" where
  "cell_percentage c = (case parse_percentage (cell_val c) of Inr r \<Rightarrow> r | Inl e \<Rightarrow> None)"

definition cell_date :: "cell \<Rightarrow> pyval option" where
  "cell_date c = (case parse_date (cell_val c) of Inr r \<Rightarrow> r | Inl e \<Rightarrow> None)"

text \<open>The text searched for a period header: columns A and G, trimmed and upper-cased.\<close>

definition header_text :: "row \<Rightarrow> string" where
  "header_text row_values =
     (let cell_a = (if length row_values > 0 then upper (strip (cell_str (row_values ! 0))) else []);
          cell_g = (if length row_values > 6 then upper (strip (cell_str (row_values ! 6))) else [])
      in cell_a @ cell_g)"

definition progress_records :: "string \<Rightarrow> nat \<Rightarrow> row \<Rightarrow> period_progress_record list" where
  "progress_records g p row_values =
     concat (map (\<lambda>(par, col_idx).
       if col_idx < length row_values then
         (case cell_percentage (row_values ! col_idx) of
            Some progress_val \<Rightarrow>
              if p > 0
              then [\<lparr>grade_level = g, periodo = p, paralelo = par,
                     progress_percentage = progress_val\<rparr>]
              else []
          | None \<Rightarrow> [])
       else []) paralelo_indices)"

definition topic_records :: "string \<Rightarrow> nat \<Rightarrow> string \<Rightarrow> string \<Rightarrow> row \<Rightarrow> topic_completion_record list" where
  "topic_records g p tema_number_raw tema_title_raw row_values =
     concat (map (\<lambda>(par, col_idx).
       if col_idx < length row_values then
         (case cell_date (row_values ! col_idx) of
            Some d \<Rightarrow>
              [\<lparr>grade_level = g, periodo = p, paralelo = par,
                tema_number = tema_number_raw, tema_title = tema_title_raw,
                completion_date = d\<rparr>]
          | None \<Rightarrow> [])
       else []) paralelo_indices)"

text \<open>
  One pass of the loop body: the new state and the records the row appends to the two
  lists. The branches are those of the source, in its order.
\<close>

definition process_row ::
  "string \<Rightarrow> scan_state \<Rightarrow> row
   \<Rightarrow> scan_state \<times> period_progress_record list \<times> topic_completion_record list" where
  "process_row g st row_values =
     (case period_search (header_text row_values) of
        Some ds \<Rightarrow>
          (\<lparr>current_periodo = digits_val ds, expect_period_progress_next = True\<rparr>, [], [])
      | None \<Rightarrow>
          if expect_period_progress_next st then
            (st\<lparr>expect_period_progress_next := False\<rparr>,
             progress_records g (current_periodo st) row_values, [])
          else
            (let tema_title_raw =
                   (if length row_values > 4 then strip (cell_str (row_values ! 4)) else [])
             in if tema_title_raw \<noteq> [] \<and> current_periodo st > 0 then
                  (let tema_number_raw =
                         (if length row_values > 3 then strip (cell_str (row_values ! 3)) else [])
                   in (st, [], topic_records g (current_periodo st) tema_number_raw
                                 tema_title_raw row_values))
                else (st\<lparr>expect_period_progress_next := False\<rparr>, [], [])))"

text \<open>The two variables the loop carries, as they are before the first row.\<close>

definition initial_state :: scan_state where
  "initial_state = \<lparr>current_periodo = 0, expect_period_progress_next = False\<rparr>"

fun scan_rows :: "string \<Rightarrow> scan_state \<Rightarrow> results \<Rightarrow> row list \<Rightarrow> results" where
  "scan_rows g st res [] = res"
| "scan_rows g st res (row_values # rows) =
     (case process_row g st row_values of
        (st', pps, tcs) \<Rightarrow>
          scan_rows g st'
            (res\<lparr>period_progress := period_progress res @ pps,
                 topic_completion := topic_completion res @ tcs\<rparr>) rows)"

definition extract_worksheet_data :: "worksheet \<Rightarrow> exn + results" where
  "extract_worksheet_data ws =
     (let res = \<lparr>period_progress = [], topic_completion = []\<rparr>; g = title ws
      in case get_as_df ws of
           Inl e \<Rightarrow> if is_Exception e then Inr res else Inl e
         | Inr df \<Rightarrow>
             Inr (scan_rows g initial_state res df))"

text \<open>
  The state the loop has reached after a prefix of the rows, and what the row at index
  \<open>i\<close> of a frame appends to the two lists.
\<close>

fun state_after :: "string \<Rightarrow> scan_state \<Rightarrow> row list \<Rightarrow> scan_state" where
  "state_after g st [] = st"
| "state_after g st (row_values # rows) = state_after g (fst (process_row g st row_values)) rows"

definition row_progress :: "string \<Rightarrow> row list \<Rightarrow> nat \<Rightarrow> period_progress_record list" where
  "row_progress g df i =
     fst (snd (process_row g (state_after g initial_state (take i df)) (df ! i)))"

definition row_topics :: "string \<Rightarrow> row list \<Rightarrow> nat \<Rightarrow> topic_completion_record list" where
  "row_topics g df i =
     snd (snd (process_row g (state_after g initial_state (take i df)) (df ! i)))"

text \<open>
  The number a period-header row carries, and the number of the most recent header
  among some rows (0 when there is none).
\<close>

definition header_number :: "row \<Rightarrow> nat option" where
  "header_number row_values = map_option digits_val (period_search (header_text row_values))"

definition last_header_number :: "row list \<Rightarrow> nat" where
  "last_header_number rows =
     (case List.map_filter header_number (rev rows) of [] \<Rightarrow> 0 | n # ns \<Rightarrow> n)"

text \<open>
  The four archetypes of a row, in the priority order of the specification: a header;
  after a header, a progress row; a row with a title in column E under a known period,
  a topic row; any other row.
\<close>

datatype archetype = Header | Progress | Topic | Other

definition classify :: "scan_state \<Rightarrow> row \<Rightarrow> archetype" where
  "classify st row_values =
     (if header_number row_values \<noteq> None then Header
      else if expect_period_progress_next st then Progress
      else if length row_values > 4 \<and> strip (cell_str (row_values ! 4)) \<noteq> []
              \<and> current_periodo st > 0 then Topic
      else Other)"

section \<open>The sheet key resolver\<close>

text \<open>
  \<open>re.search(r'/spreadsheets/d/([a-zA-Z0-9-_]+)', url)\<close>: the leftmost place where the
  literal is followed by at least one character of the class; the group is the whole
  run of such characters.
\<close>

definition is_key_char :: "char \<Rightarrow> bool" where
  "is_key_char c = ((97 \<le> cp c \<and> cp c \<le> 122) \<or> (65 \<le> cp c \<and> cp c \<le> 90)
                     \<or> (48 \<le> cp c \<and> cp c \<le> 57) \<or> c = CHR ''-'' \<or> c = CHR ''_'')"

definition key_at :: "string \<Rightarrow> string option" where
  "key_at s =
     (if starts_with ''/spreadsheets/d/'' s
      then (let k = takeWhile is_key_char (drop (length ''/spreadsheets/d/'') s)
            in if k = [] then None else Some k)
      else None)"

fun extract_sheet_key_from_url :: "string \<Rightarrow> string option" where
  "extract_sheet_key_from_url [] = None"
| "extract_sheet_key_from_url (c # cs) =
     (case key_at (c # cs) of
        Some k \<Rightarrow> Some k
      | None \<Rightarrow> extract_sheet_key_from_url cs)"

section \<open>The worksheet validator\<close>

text \<open>
  The spreadsheet service and the fuzzy matcher are outside the program. A spreadsheet
  has a title and a list of worksheets; a client opens a spreadsheet by its key; the
  services are the authorization, which gives a client, and the scorer
  \<open>fuzz.token_set_ratio\<close>. Every call of them can raise, and every call is recorded.
\<close>

record spreadsheet = titled +
  worksheets :: "exn + worksheet list"

record client =
  open_by_key :: "string \<Rightarrow> exn + spreadsheet"

record services =
  authorize :: "string \<Rightarrow> exn + client"
  token_set_ratio :: "string \<Rightarrow> string \<Rightarrow> exn + int"

datatype call =
    Authorize string | OpenByKey string | Worksheets
  | GetValue string string | TokenSetRatio string string

text \<open>
  The body of the loop over the worksheets, with the list of accepted titles and the
  calls made so far. The first exception ends the loop.
\<close>

fun check_worksheets ::
  "services \<Rightarrow> string \<Rightarrow> string \<Rightarrow> string \<Rightarrow> int \<Rightarrow> string
   \<Rightarrow> worksheet list \<Rightarrow> string list \<Rightarrow> call list \<Rightarrow> (exn + string list) \<times> call list" where
  "check_worksheets sv header_cell expected_header_value teacher_name_cell
     similarity_threshold clean_name_title [] valid_titles calls = (Inr valid_titles, calls)"
| "check_worksheets sv header_cell expected_header_value teacher_name_cell
     similarity_threshold clean_name_title (wks # rest) valid_titles calls =
     (let continue = check_worksheets sv header_cell expected_header_value teacher_name_cell
                       similarity_threshold clean_name_title rest;
          calls1 = calls @ [GetValue (title wks) header_cell]
      in case get_value wks header_cell of
           Inl e \<Rightarrow> (Inl e, calls1)
         | Inr header_cell_value_raw \<Rightarrow>
             (case header_cell_value_raw of
                PStr h \<Rightarrow>
                  if upper (strip h) \<noteq> upper expected_header_value
                  then continue valid_titles calls1
                  else
                    (let calls2 = calls1 @ [GetValue (title wks) teacher_name_cell]
                     in case get_value wks teacher_name_cell of
                          Inl e \<Rightarrow> (Inl e, calls2)
                        | Inr name_in_cell_raw \<Rightarrow>
                            (case name_in_cell_raw of
                               PStr n \<Rightarrow>
                                 if strip n = [] then continue valid_titles calls2
                                 else
                                   (let clean_name_cell = preprocess_name (PStr n)
                                    in if clean_name_title = [] \<or> clean_name_cell = []
                                       then continue valid_titles calls2
                                       else
                                         (let calls3 = calls2 @ [TokenSetRatio clean_name_cell
                                                                   clean_name_title]
                                          in case token_set_ratio sv clean_name_cell
                                                    clean_name_title of
                                               Inl e \<Rightarrow> (Inl e, calls3)
                                             | Inr similarity_score \<Rightarrow>
                                                 if similarity_score \<ge> similarity_threshold
                                                 then continue (valid_titles @ [title wks]) calls3
                                                 else continue valid_titles calls3))
                             | _ \<Rightarrow> continue valid_titles calls2))
              | _ \<Rightarrow> continue valid_titles calls1))"

text \<open>The body of the \<open>try\<close>: the listing of the worksheets, then the loop.\<close>

definition iterate_worksheets ::
  "services \<Rightarrow> string \<Rightarrow> string \<Rightarrow> string \<Rightarrow> int \<Rightarrow> string
   \<Rightarrow> spreadsheet \<Rightarrow> call list \<Rightarrow> (exn + string list) \<times> call list" where
  "iterate_worksheets sv header_cell expected_header_value teacher_name_cell
     similarity_threshold clean_name_title sh calls =
     (case worksheets sh of
        Inl e \<Rightarrow> (Inl e, calls @ [Worksheets])
      | Inr wkss \<Rightarrow>
          check_worksheets sv header_cell expected_header_value teacher_name_cell
            similarity_threshold clean_name_title wkss [] (calls @ [Worksheets]))"

text \<open>
  The two handlers of the \<open>try\<close>, in their order: an \<open>ImportError\<close> is raised again as
  it is, any other \<open>Exception\<close> is replaced by a \<open>RuntimeError\<close> raised from it.
\<close>

definition handle_iteration_error :: "string \<Rightarrow> exn \<Rightarrow> exn" where
  "handle_iteration_error sheet_key e =
     (if is_ImportError e then e
      else if is_Exception e
      then Exn RuntimeError (''Error processing worksheets in sheet '' @ sheet_key) (Some e)
      else e)"

definition find_valid_teacher_worksheets ::
  "services \<Rightarrow> string \<Rightarrow> string \<Rightarrow> string \<Rightarrow> string \<Rightarrow> string \<Rightarrow> int
   \<Rightarrow> (exn + string list) \<times> call list" where
  "find_valid_teacher_worksheets sv sheet_url service_file_path header_cell
     expected_header_value teacher_name_cell similarity_threshold =
     (let invalid = (Inl (Exn ValueError
                            (''Could not extract valid sheet key from URL: '' @ sheet_url) None), [])
      in case extract_sheet_key_from_url sheet_url of
           None \<Rightarrow> invalid
         | Some sheet_key \<Rightarrow>
             if sheet_key = [] then invalid
             else
               (case authorize sv service_file_path of
                  Inl e \<Rightarrow> (Inl e, [Authorize service_file_path])
                | Inr gc \<Rightarrow>
                    (case open_by_key gc sheet_key of
                       Inl e \<Rightarrow> (Inl e, [Authorize service_file_path, OpenByKey sheet_key])
                     | Inr sh \<Rightarrow>
                         (let spreadsheet_title = title sh;
                              name_part_in_title_raw =
                                strip (takeWhile (\<lambda>c. c \<noteq> CHR ''_'') (strip spreadsheet_title));
                              clean_name_title = preprocess_name (PStr name_part_in_title_raw)
                          in case iterate_worksheets sv header_cell expected_header_value
                                    teacher_name_cell similarity_threshold clean_name_title sh
                                    [Authorize service_file_path, OpenByKey sheet_key] of
                               (Inl e, calls) \<Rightarrow> (Inl (handle_iteration_error sheet_key e), calls)
                             | (Inr valid_titles, calls) \<Rightarrow> (Inr valid_titles, calls)))))"

text \<open>
  Two spreadsheets for worked examples, both titled for the teacher Maria Lopez and
  both with one worksheet: on the first, reading a cell fails at the service; on the
  second, the header and the name are as expected and the scorer is not installed.
\<close>

definition quota_error :: exn where
  "quota_error = Exn (OtherException ''HttpError'') ''quota exceeded'' None"

definition failing_worksheet :: worksheet where
  "failing_worksheet = \<lparr>title = ''4TO'', get_value = (\<lambda>a1. Inl quota_error), get_as_df = Inr []\<rparr>"

definition failing_spreadsheet :: spreadsheet where
  "failing_spreadsheet = \<lparr>title = ''Maria Lopez_2025'', worksheets = Inr [failing_worksheet]\<rparr>"

definition failing_services :: services where
  "failing_services =
     \<lparr>authorize = (\<lambda>path. Inr \<lparr>open_by_key = (\<lambda>k. Inr failing_spreadsheet)\<rparr>),
      token_set_ratio = (\<lambda>a b. Inr 100)\<rparr>"

definition import_error :: exn where
  "import_error = Exn ModuleNotFoundError ''No module named thefuzz'' None"

definition matching_worksheet :: worksheet where
  "matching_worksheet =
     \<lparr>title = ''4TO'',
      get_value = (\<lambda>a1. if a1 = ''E3'' then Inr (PStr ''Docente '')
                        else Inr (PStr ''Lic. Maria  Lopez'')),
      get_as_df = Inr []\<rparr>"

definition matching_spreadsheet :: spreadsheet where
  "matching_spreadsheet = \<lparr>title = ''Maria Lopez_2025'', worksheets = Inr [matching_worksheet]\<rparr>"

definition unavailable_services :: services where
  "unavailable_services =
     \<lparr>authorize = (\<lambda>path. Inr \<lparr>open_by_key = (\<lambda>k. Inr matching_spreadsheet)\<rparr>),
      token_set_ratio = (\<lambda>a b. Inl import_error)\<rparr>"

definition example_url :: string where
  "example_url = ''https://docs.google.com/spreadsheets/d/ABC123-xyz/edit''"

text \<open>
  The rows of the worked example: a row of eighteen empty cells, and the same row with
  a period header in column A, with two percentages in columns O and P, and with a
  topic number, a title and a date in columns D, E and O.
\<close>

definition blank_row :: row where
  "blank_row = replicate 18 (Text [])"

definition header_row :: row where
  "header_row = blank_row[0 := Text ''1ER PERIODO'']"

definition progress_row :: row where
  "progress_row = blank_row[14 := Text ''90%'', 15 := Text ''85%'']"

definition topic_row :: row where
  "topic_row = blank_row[3 := Text ''3'', 4 := Text ''Fracciones'', 14 := Text ''6/3/25'']"

section \<open>Properties of the string helpers\<close>

lemma dropWhile_idem: "dropWhile P (dropWhile P xs) = dropWhile P xs"
  by (induction xs) auto

lemma lstrip_map: "(\<And>c. isspace (f c) = isspace c) \<Longrightarrow> lstrip (map f s) = map f (lstrip s)"
  by (simp add: lstrip_def dropWhile_map comp_def)

lemma rstrip_map: "(\<And>c. isspace (f c) = isspace c) \<Longrightarrow> rstrip (map f s) = map f (rstrip s)"
  by (simp add: rstrip_def dropWhile_map comp_def rev_map)

lemma strip_map: "(\<And>c. isspace (f c) = isspace c) \<Longrightarrow> strip (map f s) = map f (strip s)"
  by (simp add: strip_def lstrip_map rstrip_map)

lemma rstrip_append_nonspace: "\<not> isspace c \<Longrightarrow> rstrip (s @ [c]) = s @ [c]"
  by (simp add: rstrip_def)

lemma rstrip_eq_Nil_or_last: "rstrip s = [] \<or> \<not> isspace (last (rstrip s))"
proof (induction s rule: rev_induct)
  case Nil
  then show ?case by (simp add: rstrip_def)
next
  case (snoc x xs)
  then show ?case by (cases "isspace x") (simp_all add: rstrip_def)
qed

lemma lstrip_eq_Nil_or_hd: "lstrip s = [] \<or> \<not> isspace (hd (lstrip s))"
  unfolding lstrip_def by (metis hd_dropWhile)

lemma rstrip_id: "s = [] \<or> \<not> isspace (last s) \<Longrightarrow> rstrip s = s"
  by (cases s rule: rev_cases) (auto simp: rstrip_def)

lemma lstrip_id: "s = [] \<or> \<not> isspace (hd s) \<Longrightarrow> lstrip s = s"
  by (cases s) (auto simp: lstrip_def)

lemma hd_rstrip: "\<not> isspace (hd s) \<Longrightarrow> s \<noteq> [] \<Longrightarrow> rstrip s \<noteq> [] \<and> hd (rstrip s) = hd s"
proof (induction s rule: rev_induct)
  case Nil
  then show ?case by simp
next
  case (snoc x xs)
  show ?case
  proof (cases "isspace x")
    case True
    with snoc have "xs \<noteq> []" by auto
    with snoc True show ?thesis by (auto simp: rstrip_def)
  next
    case False
    then show ?thesis by (simp add: rstrip_def)
  qed
qed

lemma strip_ends: "strip s = [] \<or> (\<not> isspace (hd (strip s)) \<and> \<not> isspace (last (strip s)))"
proof (cases "lstrip s = []")
  case True
  then show ?thesis by (simp add: strip_def rstrip_def)
next
  case False
  then have h: "\<not> isspace (hd (lstrip s))" using lstrip_eq_Nil_or_hd by blast
  from hd_rstrip[OF h False] rstrip_eq_Nil_or_last[of "lstrip s"] h
  show ?thesis by (auto simp: strip_def)
qed

lemma strip_id: "s = [] \<or> (\<not> isspace (hd s) \<and> \<not> isspace (last s)) \<Longrightarrow> strip s = s"
proof -
  assume a: "s = [] \<or> (\<not> isspace (hd s) \<and> \<not> isspace (last s))"
  then have "lstrip s = s" by (intro lstrip_id) auto
  moreover from a have "rstrip s = s" by (intro rstrip_id) auto
  ultimately show ?thesis by (simp add: strip_def)
qed

lemma strip_strip: "strip (strip s) = strip s"
  using strip_ends strip_id by blast

lemma dropWhile_replicate_append: "P x \<Longrightarrow> dropWhile P (replicate k x @ ys) = dropWhile P ys"
  by (induction k) simp_all

lemma rstrip_char_replicate: "rstrip_char x (s @ replicate k x) = rstrip_char x s"
  by (simp add: rstrip_char_def dropWhile_replicate_append)

lemma isspace_replace: "isspace (if c = CHR '','' then CHR ''.'' else c) = isspace c"
  by (simp add: isspace_def cp_def)

lemma replace_char_idem: "replace_char CHR '','' CHR ''.'' (replace_char CHR '','' CHR ''.'' s) = replace_char CHR '','' CHR ''.'' s"
  by (simp add: replace_char_def)

lemma strip_append_percents:
  "strip (strip u @ replicate k CHR ''%'') = strip u @ replicate k CHR ''%''"
proof (cases k)
  case 0
  then show ?thesis by (simp add: strip_strip)
next
  case (Suc j)
  have p: "\<not> isspace CHR ''%''" by (simp add: isspace_def cp_def)
  have "replicate k CHR ''%'' = replicate j CHR ''%'' @ [CHR ''%'']"
    using Suc by (simp add: replicate_append_same)
  then have l: "last (strip u @ replicate k CHR ''%'') = CHR ''%''" by simp
  have h: "hd (strip u @ replicate k CHR ''%'') = (if strip u = [] then CHR ''%'' else hd (strip u))"
    using Suc by simp
  show ?thesis
    by (rule strip_id) (use strip_ends[of u] p l h in auto)
qed

lemma parse_percentage_commas:
  "parse_percentage (PStr (replace_char CHR '','' CHR ''.'' s)) = parse_percentage (PStr s)"
  by (simp add: parse_percentage_def replace_char_idem)

lemma parse_percentage_percents:
  "parse_percentage (PStr (strip s @ replicate k CHR ''%'')) = parse_percentage (PStr (strip s))"
proof -
  let ?r = "replace_char CHR '','' CHR ''.''"
  have r: "?r (strip s @ replicate k CHR ''%'') = strip (?r s) @ replicate k CHR ''%''"
    by (simp add: replace_char_def strip_map[OF isspace_replace])
  have r0: "?r (strip s) = strip (?r s)"
    by (simp add: replace_char_def strip_map[OF isspace_replace])
  show ?thesis
    unfolding parse_percentage_def pyval.case r r0 strip_append_percents strip_strip rstrip_char_replicate ..
qed

lemma strptime_dmy_error: "strptime_dmy s = Inl e \<Longrightarrow> is_Value_or_TypeError e"
  by (auto simp: strptime_dmy_def make_date_def split: list.splits if_splits prod.splits)

lemma float_of_str_error: "float_of_str s = Inl e \<Longrightarrow> is_Value_or_TypeError e"
  by (auto simp: float_of_str_def Let_def split: option.splits if_splits)

lemma parse_date_never_raises: "\<exists>r. parse_date v = Inr r"
  by (cases v) (auto simp: parse_date_def Let_def split: sum.splits dest: strptime_dmy_error)

lemma parse_percentage_not_int_never_raises: "(\<forall>n. v \<noteq> PInt n) \<Longrightarrow> \<exists>r. parse_percentage v = Inr r"
  by (cases v) (auto simp: parse_percentage_def Let_def split: sum.splits dest: float_of_str_error)

section \<open>Properties of the value coercers\<close>

text \<open>
  C9. In the cleaning of a string by \<open>parse_percentage\<close> every comma becomes a dot and
  every trailing percent sign is stripped: \<open>"1,234"\<close> gives 1.234, \<open>"50%%"\<close> gives 50.0
  and \<open>"1,2,3"\<close>, with two separators, gives the absent marker. In general a string and
  the string with its commas written as dots give the same result, and so do a
  trimmed string and the same string followed by any number of percent signs.
\<close>

theorem parse_percentage_cleaning:
  "parse_percentage (PStr ''1,234'') = Inr (Some (Finite (1234 / 1000)))
   \<and> parse_percentage (PStr ''50%%'') = Inr (Some (Finite 50))
   \<and> parse_percentage (PStr ''1,2,3'') = Inr None
   \<and> parse_percentage (PStr (replace_char CHR '','' CHR ''.'' s)) = parse_percentage (PStr s)
   \<and> parse_percentage (PStr (strip s @ replicate k CHR ''%'')) = parse_percentage (PStr (strip s))"
proof -
  have "parse_percentage (PStr ''1,234'') = Inr (Some (Finite (1234 / 1000)))"
    by code_simp
  moreover have "parse_percentage (PStr ''50%%'') = Inr (Some (Finite 50))"
    by code_simp
  moreover have "parse_percentage (PStr ''1,2,3'') = Inr None"
    by code_simp
  ultimately show ?thesis
    using parse_percentage_commas parse_percentage_percents by simp
qed

theorem parse_percentage_cleaning_witness:
  "parse_percentage (PStr (replace_char CHR '','' CHR ''.'' ''7,5%'')) = Inr (Some (Finite (15 / 2)))
   \<and> parse_percentage (PStr (strip '' 7.5 '' @ replicate 3 CHR ''%'')) = Inr (Some (Finite (15 / 2)))"
proof -
  have a: "parse_percentage (PStr ''7,5%'') = Inr (Some (Finite (15 / 2)))"
    by code_simp
  have b: "parse_percentage (PStr (strip '' 7.5 '')) = Inr (Some (Finite (15 / 2)))"
    by code_simp
  show ?thesis
    using parse_percentage_cleaning [of "''7,5%''" 0]
          parse_percentage_cleaning [of "'' 7.5 ''" 3] a b
    by simp
qed

text \<open>
  C10. \<open>parse_date\<close> returns an instance of a subclass of \<open>date\<close> as it is: a
  \<open>datetime\<close> comes back as the same \<open>datetime\<close>, with its time of day, and is not
  converted to a calendar date.
\<close>

theorem parse_date_datetime_unchanged:
  "parse_date (PDatetime d t) = Inr (Some (PDatetime d t))"
  by (simp add: parse_date_def)

theorem parse_date_datetime_unchanged_witness:
  "parse_date (PDatetime \<lparr>year = 2025, month = 3, day = 6\<rparr>
                         \<lparr>hour = 14, minute = 30, second = 0, microsecond = 0\<rparr>)
   = Inr (Some (PDatetime \<lparr>year = 2025, month = 3, day = 6\<rparr>
                          \<lparr>hour = 14, minute = 30, second = 0, microsecond = 0\<rparr>))"
  using parse_date_datetime_unchanged
          [of "\<lparr>year = 2025, month = 3, day = 6\<rparr>"
              "\<lparr>hour = 14, minute = 30, second = 0, microsecond = 0\<rparr>"]
  by simp

text \<open>
  C6. Neither coercer ever raises. This holds for \<open>parse_date\<close> and for every argument
  of \<open>parse_percentage\<close> that is not an \<open>int\<close> (the two lemmas above), but the
  conversion \<open>float(value)\<close> of a numeric argument is outside the \<open>try\<close>: for the
  integer \<open>10 ** 400\<close> it raises \<open>OverflowError\<close>, which \<open>parse_percentage\<close> lets
  through.
\<close>

theorem parse_percentage_huge_int_raises:
  "parse_percentage (PInt (10 ^ 400))
   = Inl (Exn OverflowError ''int too large to convert to float'' None)"
  by code_simp

section \<open>Properties of the grid extractor\<close>

lemma cell_percentage_ok: "parse_percentage (cell_val c) = Inr (cell_percentage c)"
proof -
  have "\<forall>n. cell_val c \<noteq> PInt n" by (cases c) simp_all
  from parse_percentage_not_int_never_raises[OF this]
  show ?thesis by (auto simp: cell_percentage_def)
qed

lemma cell_date_ok: "parse_date (cell_val c) = Inr (cell_date c)"
  using parse_date_never_raises[of "cell_val c"] by (auto simp: cell_date_def)

lemma scan_rows_append:
  "scan_rows g st res (xs @ ys) = scan_rows g (state_after g st xs) (scan_rows g st res xs) ys"
  by (induction xs arbitrary: st res) (auto split: prod.splits)

lemma state_after_append:
  "state_after g st (xs @ ys) = state_after g (state_after g st xs) ys"
  by (induction xs arbitrary: st) auto

lemma scan_rows_snoc:
  "scan_rows g st res (xs @ [r]) =
     (let res' = scan_rows g st res xs; out = process_row g (state_after g st xs) r
      in res'\<lparr>period_progress := period_progress res' @ fst (snd out),
              topic_completion := topic_completion res' @ snd (snd out)\<rparr>)"
  by (simp add: scan_rows_append Let_def split: prod.splits)

lemma scan_rows_progress:
  "period_progress (scan_rows g initial_state \<lparr>period_progress = [], topic_completion = []\<rparr> df)
   = concat (map (row_progress g df) [0..<length df])"
proof (induction df rule: rev_induct)
  case Nil
  then show ?case by simp
next
  case (snoc r df)
  have eq: "map (row_progress g (df @ [r])) [0..<length df] = map (row_progress g df) [0..<length df]"
    by (simp add: row_progress_def nth_append)
  have lst: "row_progress g (df @ [r]) (length df)
             = fst (snd (process_row g (state_after g initial_state df) r))"
    by (simp add: row_progress_def)
  have "period_progress (scan_rows g initial_state \<lparr>period_progress = [], topic_completion = []\<rparr> (df @ [r]))
        = concat (map (row_progress g df) [0..<length df]) @ row_progress g (df @ [r]) (length df)"
    by (simp add: scan_rows_snoc Let_def snoc lst)
  also have "\<dots> = concat (map (row_progress g (df @ [r])) [0..<length df]) @ row_progress g (df @ [r]) (length df)"
    by (simp only: eq)
  finally show ?case by simp
qed

lemma scan_rows_topics:
  "topic_completion (scan_rows g initial_state \<lparr>period_progress = [], topic_completion = []\<rparr> df)
   = concat (map (row_topics g df) [0..<length df])"
proof (induction df rule: rev_induct)
  case Nil
  then show ?case by simp
next
  case (snoc r df)
  have eq: "map (row_topics g (df @ [r])) [0..<length df] = map (row_topics g df) [0..<length df]"
    by (simp add: row_topics_def nth_append)
  have lst: "row_topics g (df @ [r]) (length df)
             = snd (snd (process_row g (state_after g initial_state df) r))"
    by (simp add: row_topics_def)
  have "topic_completion (scan_rows g initial_state \<lparr>period_progress = [], topic_completion = []\<rparr> (df @ [r]))
        = concat (map (row_topics g df) [0..<length df]) @ row_topics g (df @ [r]) (length df)"
    by (simp add: scan_rows_snoc Let_def snoc lst)
  also have "\<dots> = concat (map (row_topics g (df @ [r])) [0..<length df]) @ row_topics g (df @ [r]) (length df)"
    by (simp only: eq)
  finally show ?case by simp
qed

lemma process_row_state:
  "fst (process_row g st r) =
     (case header_number r of
        Some n \<Rightarrow> \<lparr>current_periodo = n, expect_period_progress_next = True\<rparr>
      | None \<Rightarrow> \<lparr>current_periodo = current_periodo st, expect_period_progress_next = False\<rparr>)"
  by (cases st) (auto simp: process_row_def header_number_def Let_def split: option.splits)

lemma state_after_snoc: "state_after g st (xs @ [r]) = fst (process_row g (state_after g st xs) r)"
  by (simp add: state_after_append)

lemma current_periodo_after:
  "current_periodo (state_after g initial_state pre) = last_header_number pre"
proof (induction pre rule: rev_induct)
  case Nil
  then show ?case by (simp add: initial_state_def last_header_number_def List.map_filter_simps)
next
  case (snoc r pre)
  then show ?case
    by (cases "header_number r")
       (simp_all add: state_after_snoc process_row_state last_header_number_def List.map_filter_simps)
qed

lemma expect_after:
  "expect_period_progress_next (state_after g initial_state pre)
   = (pre \<noteq> [] \<and> header_number (last pre) \<noteq> None)"
proof (cases pre rule: rev_cases)
  case Nil
  then show ?thesis by (simp add: initial_state_def)
next
  case (snoc xs r)
  then show ?thesis
    by (cases "header_number r") (simp_all add: state_after_snoc process_row_state)
qed

lemma progress_records_all:
  "list_all (\<lambda>r. periodo r = p \<and> 0 < p \<and> grade_level r = g) (progress_records g p rw)"
  by (simp add: progress_records_def paralelo_indices_def split: option.splits)

lemma topic_records_all:
  "list_all (\<lambda>r. periodo r = p \<and> grade_level r = g) (topic_records g p n t rw)"
  by (simp add: topic_records_def paralelo_indices_def split: option.splits)

lemma progress_records_periodo:
  "r \<in> set (progress_records g p rw) \<Longrightarrow> periodo r = p \<and> 0 < p \<and> grade_level r = g"
  using progress_records_all[of p g rw] unfolding list_all_iff by blast

lemma topic_records_periodo:
  "r \<in> set (topic_records g p n t rw) \<Longrightarrow> periodo r = p \<and> grade_level r = g"
  using topic_records_all[of p g n t rw] unfolding list_all_iff by blast

lemma progress_records_zero: "progress_records g 0 row = []"
  by (simp add: progress_records_def paralelo_indices_def split: option.splits)

lemma process_row_progress_periodo:
  "r \<in> set (fst (snd (process_row g st row))) \<Longrightarrow> periodo r = current_periodo st \<and> 0 < periodo r"
  by (auto simp: process_row_def Let_def split: option.splits if_splits dest: progress_records_periodo)

lemma process_row_topic_periodo:
  "r \<in> set (snd (snd (process_row g st row))) \<Longrightarrow> periodo r = current_periodo st \<and> 0 < periodo r"
  by (auto simp: process_row_def Let_def split: option.splits if_splits dest: topic_records_periodo)

lemma process_row_no_period:
  "current_periodo st = 0 \<Longrightarrow> snd (process_row g st row) = ([], [])"
  by (auto simp: process_row_def Let_def progress_records_zero split: option.splits)

lemma process_row_classify:
  "process_row g st row =
     (case classify st row of
        Header \<Rightarrow> (\<lparr>current_periodo = the (header_number row), expect_period_progress_next = True\<rparr>, [], [])
      | Progress \<Rightarrow> (st\<lparr>expect_period_progress_next := False\<rparr>,
                     progress_records g (current_periodo st) row, [])
      | Topic \<Rightarrow> (st, [],
                  topic_records g (current_periodo st)
                    (if length row > 3 then strip (cell_str (row ! 3)) else [])
                    (strip (cell_str (row ! 4))) row)
      | Other \<Rightarrow> (st\<lparr>expect_period_progress_next := False\<rparr>, [], []))"
  by (auto simp: process_row_def classify_def header_number_def Let_def split: option.splits)




lemma header_row_search: "period_search (header_text header_row) = Some ''1''"
  by code_simp

lemma process_row_header:
  "process_row g st header_row
   = (\<lparr>current_periodo = 1, expect_period_progress_next = True\<rparr>, [], [])"
proof -
  have "digits_val ''1'' = 1" by code_simp
  then show ?thesis by (simp add: process_row_def header_row_search)
qed

lemma progress_row_search: "period_search (header_text progress_row) = None"
  by code_simp

lemma progress_row_cells:
  "length progress_row = 18"
  "cell_percentage (progress_row ! 14) = Some (Finite 90)"
  "cell_percentage (progress_row ! 15) = Some (Finite 85)"
  "cell_percentage (progress_row ! 16) = None"
  "cell_percentage (progress_row ! 17) = None"
  by code_simp+

lemma process_row_progress:
  "process_row g \<lparr>current_periodo = 1, expect_period_progress_next = True\<rparr> progress_row
   = (\<lparr>current_periodo = 1, expect_period_progress_next = False\<rparr>,
      [\<lparr>grade_level = g, periodo = 1, paralelo = CHR ''A'', progress_percentage = Finite 90\<rparr>,
       \<lparr>grade_level = g, periodo = 1, paralelo = CHR ''B'', progress_percentage = Finite 85\<rparr>],
      [])"
  by (simp add: process_row_def progress_row_search progress_records_def paralelo_indices_def
                progress_row_cells)

lemma topic_row_search: "period_search (header_text topic_row) = None"
  by code_simp

lemma topic_row_cells:
  "length topic_row = 18"
  "strip (cell_str (topic_row ! 4)) = ''Fracciones''"
  "strip (cell_str (topic_row ! 3)) = ''3''"
  "cell_date (topic_row ! 14) = Some (PDate \<lparr>year = 2025, month = 3, day = 6\<rparr>)"
  "cell_date (topic_row ! 15) = None"
  "cell_date (topic_row ! 16) = None"
  "cell_date (topic_row ! 17) = None"
  by code_simp+




text \<open>
  C2. The two lists of a successful extraction are the records the rows append, row by
  row. Every record a row appends, of either kind, carries as \<open>periodo\<close> the number of
  the most recent period-header row above that row, and this number is positive; while
  the carried period is 0 a row appends nothing. So every record of the result has a
  positive \<open>periodo\<close>.
\<close>

theorem periodo_from_last_header:
  assumes "get_as_df ws = Inr df" and "extract_worksheet_data ws = Inr res"
  shows "period_progress res = concat (map (row_progress (title ws) df) [0..<length df])
       \<and> topic_completion res = concat (map (row_topics (title ws) df) [0..<length df])
       \<and> (\<forall>i r. r \<in> set (row_progress (title ws) df i) \<longrightarrow>
              periodo r = last_header_number (take i df) \<and> 0 < periodo r)
       \<and> (\<forall>i r. r \<in> set (row_topics (title ws) df i) \<longrightarrow>
              periodo r = last_header_number (take i df) \<and> 0 < periodo r)
       \<and> (\<forall>i. current_periodo (state_after (title ws) initial_state (take i df)) = 0 \<longrightarrow>
              row_progress (title ws) df i = [] \<and> row_topics (title ws) df i = [])
       \<and> (\<forall>r \<in> set (period_progress res). 0 < periodo r)
       \<and> (\<forall>r \<in> set (topic_completion res). 0 < periodo r)"
proof -
  let ?g = "title ws"
  from assms have res: "res = scan_rows ?g initial_state \<lparr>period_progress = [], topic_completion = []\<rparr> df"
    by (simp add: extract_worksheet_data_def)
  have p1: "period_progress res = concat (map (row_progress ?g df) [0..<length df])"
    unfolding res by (rule scan_rows_progress)
  have p2: "topic_completion res = concat (map (row_topics ?g df) [0..<length df])"
    unfolding res by (rule scan_rows_topics)
  have p3: "periodo r = last_header_number (take i df) \<and> 0 < periodo r"
    if "r \<in> set (row_progress ?g df i)" for i r
    using process_row_progress_periodo[of r ?g "state_after ?g initial_state (take i df)" "df ! i"] that
    by (simp add: row_progress_def current_periodo_after)
  have p4: "periodo r = last_header_number (take i df) \<and> 0 < periodo r"
    if "r \<in> set (row_topics ?g df i)" for i r
    using process_row_topic_periodo[of r ?g "state_after ?g initial_state (take i df)" "df ! i"] that
    by (simp add: row_topics_def current_periodo_after)
  have p5: "row_progress ?g df i = [] \<and> row_topics ?g df i = []"
    if "current_periodo (state_after ?g initial_state (take i df)) = 0" for i
    using process_row_no_period[OF that, of ?g "df ! i"]
    by (simp add: row_progress_def row_topics_def)
  have p6: "0 < periodo r" if "r \<in> set (period_progress res)" for r
    using that p3 unfolding p1 by auto
  have p7: "0 < periodo r" if "r \<in> set (topic_completion res)" for r
    using that p4 unfolding p2 by auto
  show ?thesis using p1 p2 p3 p4 p5 p6 p7 by blast
qed

text \<open>
  C3. A row appends records of at most one archetype, taken in the order header,
  progress, topic, other: a header row and any other row append nothing, a progress
  row appends no topic-completion record whatever its column E holds, and a topic row
  appends no period-progress record. The flag that makes a row a progress row is set
  exactly when the row before it was a header.
\<close>

theorem row_archetypes_exclusive:
  "(classify st rw = Header \<longrightarrow> snd (process_row g st rw) = ([], []))
   \<and> (classify st rw = Progress \<longrightarrow> snd (snd (process_row g st rw)) = [])
   \<and> (classify st rw = Topic \<longrightarrow> fst (snd (process_row g st rw)) = [])
   \<and> (classify st rw = Other \<longrightarrow> snd (process_row g st rw) = ([], []))
   \<and> (fst (snd (process_row g st rw)) = [] \<or> snd (snd (process_row g st rw)) = [])
   \<and> expect_period_progress_next (state_after g initial_state pre)
       = (pre \<noteq> [] \<and> header_number (last pre) \<noteq> None)"
  by (cases "classify st rw") (simp_all add: process_row_classify expect_after)

text \<open>
  C5. When the fetch of the frame fails, with any exception that \<open>except Exception\<close>
  catches, \<open>extract_worksheet_data\<close> returns the result with two empty lists and does
  not raise.
\<close>

theorem fetch_failure_yields_empty:
  "get_as_df ws = Inl e \<Longrightarrow> is_Exception e \<Longrightarrow>
   extract_worksheet_data ws = Inr \<lparr>period_progress = [], topic_completion = []\<rparr>"
  by (simp add: extract_worksheet_data_def)

theorem fetch_failure_yields_empty_witness:
  "extract_worksheet_data
     \<lparr>title = ''4TO'', get_value = empty_cells, get_as_df = Inl (Exn (OtherException ''HttpError'') ''quota exceeded'' None)\<rparr>
   = Inr \<lparr>period_progress = [], topic_completion = []\<rparr>"
  using fetch_failure_yields_empty
          [of "\<lparr>title = ''4TO'', get_value = empty_cells, get_as_df = Inl (Exn (OtherException ''HttpError'') ''quota exceeded'' None)\<rparr>"
              "Exn (OtherException ''HttpError'') ''quota exceeded'' None"]
  by simp

lemma classify_progress_topic_row:
  "classify \<lparr>current_periodo = 1, expect_period_progress_next = True\<rparr> topic_row = Progress"
  by (simp add: classify_def header_number_def topic_row_search)

theorem row_archetypes_exclusive_witness:
  "classify \<lparr>current_periodo = 1, expect_period_progress_next = True\<rparr> topic_row = Progress
   \<and> strip (cell_str (topic_row ! 4)) = ''Fracciones''
   \<and> snd (snd (process_row ''4TO'' \<lparr>current_periodo = 1, expect_period_progress_next = True\<rparr>
                  topic_row)) = []"
  using row_archetypes_exclusive
          [of "\<lparr>current_periodo = 1, expect_period_progress_next = True\<rparr>" topic_row "''4TO''" "[]"]
        classify_progress_topic_row topic_row_cells(2)
  by simp

theorem periodo_from_last_header_witness:
  "get_as_df \<lparr>title = ''4TO'', get_value = empty_cells, get_as_df = Inr [header_row, progress_row, blank_row, topic_row]\<rparr>
     = Inr [header_row, progress_row, blank_row, topic_row]
   \<and> last_header_number (take 1 [header_row, progress_row, blank_row, topic_row]) = 1
   \<and> list_all (\<lambda>r. periodo r = 1)
        (row_progress ''4TO'' [header_row, progress_row, blank_row, topic_row] 1)
   \<and> length (row_progress ''4TO'' [header_row, progress_row, blank_row, topic_row] 1) = 2"
proof -
  let ?df = "[header_row, progress_row, blank_row, topic_row]"
  let ?ws = "\<lparr>title = ''4TO'', get_value = empty_cells, get_as_df = Inr ?df\<rparr>"
  have a: "get_as_df ?ws = Inr ?df" by simp
  have b: "extract_worksheet_data ?ws = Inr (scan_rows ''4TO'' initial_state
             \<lparr>period_progress = [], topic_completion = []\<rparr> ?df)"
    by (simp add: extract_worksheet_data_def Let_def del: scan_rows.simps)
  have n: "last_header_number (take 1 ?df) = 1"
    by (simp add: last_header_number_def List.map_filter_simps header_number_def
                  header_row_search digits_val_def cp_def)
  have t: "take 1 ?df = [header_row]" and d: "?df ! 1 = progress_row"
    by simp_all
  have l: "length (row_progress ''4TO'' ?df 1) = 2"
    unfolding row_progress_def t d
    by (simp add: process_row_header process_row_progress del: One_nat_def)
  from periodo_from_last_header [OF a b]
  have "\<forall>r. r \<in> set (row_progress ''4TO'' ?df 1) \<longrightarrow> periodo r = last_header_number (take 1 ?df)"
    by simp
  with n have "list_all (\<lambda>r. periodo r = 1) (row_progress ''4TO'' ?df 1)"
    by (simp add: list_all_iff)
  with a n l show ?thesis by simp
qed

section \<open>Properties of the name normalizer\<close>

lemma cp_less: "cp c < 256"
proof -
  have "(of_char c :: nat) mod 256 = of_char c" by (rule of_char_mod_256)
  moreover have "(of_char c :: nat) mod 256 < 256" by simp
  ultimately show ?thesis unfolding cp_def by simp
qed

lemma cp_char_of: "n < 256 \<Longrightarrow> cp (char_of n) = n"
  by (simp add: cp_def)

lemma lower_char_cp: "isupper c \<Longrightarrow> cp (lower_char c) = cp c + 32"
proof -
  assume u: "isupper c"
  then have "cp c + 32 < 256" by (simp add: isupper_def) arith
  with u show ?thesis by (simp add: lower_char_def cp_char_of)
qed


lemma isword_lower_char: "isword (lower_char c) = isword c"
proof (cases "isupper c")
  case False
  then show ?thesis by (simp add: lower_char_def)
next
  case True
  from True have a: "isalpha c" by (simp add: isupper_def isalpha_def) arith
  from True have "isalpha (lower_char c)"
    unfolding isalpha_def lower_char_cp[OF True] isupper_def by arith
  with a show ?thesis by (simp add: isword_def)
qed

lemma isspace_not_word: "isspace c \<Longrightarrow> \<not> isword c"
  unfolding isspace_def isword_def isalpha_def isnumeric_def isdecimal_def by arith

lemma dot_not_word: "\<not> isword CHR ''.''"
  by (simp add: isword_def isalpha_def isnumeric_def isdecimal_def cp_def)

lemma space_not_word: "\<not> isword CHR '' ''"
  by (simp add: isword_def isalpha_def isnumeric_def isdecimal_def cp_def)

lemma lower_char_idem: "lower_char (lower_char c) = lower_char c"
proof (cases "isupper c")
  case False
  then show ?thesis by (simp add: lower_char_def)
next
  case True
  from True have "\<not> isupper (lower_char c)"
    unfolding isupper_def lower_char_cp[OF True] by arith
  then show ?thesis by (simp add: lower_char_def[of "lower_char c"])
qed

lemma lower_char_space: "lower_char CHR '' '' = CHR '' ''"
  by (simp add: lower_char_def isupper_def cp_def)

lemma list_all_isword_lower: "list_all isword (lower s) = list_all isword s"
  by (induction s) (simp_all add: lower_def isword_lower_char)

lemma starts_with_ci_iff:
  "starts_with_ci t s \<longleftrightarrow> length t \<le> length s \<and> lower (take (length t) s) = lower t"
  by (induction t s rule: starts_with_ci.induct) (auto simp: lower_def)


lemma length_lower: "length (lower s) = length s"
  by (simp add: lower_def)

lemma lower_eq_length: "lower a = lower b \<Longrightarrow> length a = length b"
  by (metis length_lower)

lemma word_opt_first_char_rest:
  "rest = [] \<or> \<not> isword (hd rest) \<Longrightarrow> \<not> word_opt (first_char rest)"
  by (cases rest) (auto simp: word_opt_def first_char_def)

lemma list_all_last: "list_all P xs \<Longrightarrow> xs \<noteq> [] \<Longrightarrow> P (last xs)"
  by (simp add: list_all_iff)

lemma alternative_matches_run:
  assumes t: "t \<noteq> []" "list_all isword t"
    and run: "list_all isword run"
    and rest: "rest = [] \<or> \<not> isword (hd rest)"
  shows "alternative_matches (run @ rest) t \<longleftrightarrow> lower t = lower run"
proof
  assume am: "alternative_matches (run @ rest) t"
  let ?s = "run @ rest"
  let ?k = "length t"
  from am have len: "?k \<le> length ?s" and eq: "lower (take ?k ?s) = lower t"
    and bd: "boundary (Some (last (take ?k ?s))) (first_char (drop ?k ?s))"
    using t(1) by (simp_all add: alternative_matches_def starts_with_ci_iff)
  from eq t(2) have allw: "list_all isword (take ?k ?s)"
    by (metis list_all_isword_lower)
  have le: "?k \<le> length run"
  proof (rule ccontr)
    assume "\<not> ?k \<le> length run"
    then have gt: "length run < ?k" by simp
    with len have ne: "rest \<noteq> []" by auto
    from gt have "take ?k ?s = run @ take (?k - length run) rest" by simp
    moreover from gt ne have "hd rest \<in> set (take (?k - length run) rest)"
      by (cases rest) (auto simp: take_Cons')
    ultimately have "isword (hd rest)" using allw by (simp add: list_all_iff)
    with rest ne show False by simp
  qed
  from t(1) len have tne: "take ?k ?s \<noteq> []" by auto
  from allw tne have "isword (last (take ?k ?s))" by (rule list_all_last)
  with bd have nw: "\<not> word_opt (first_char (drop ?k ?s))"
    by (simp add: boundary_def word_opt_def)
  have "?k = length run"
  proof (rule ccontr)
    assume "?k \<noteq> length run"
    with le have lt: "?k < length run" by simp
    then have "drop ?k run \<noteq> []" by simp
    then obtain x xs where d: "drop ?k run = x # xs" by (cases "drop ?k run") auto
    then have "x \<in> set run" by (metis in_set_dropD list.set_intros(1))
    with run have "isword x" by (simp add: list_all_iff)
    moreover from lt d have "first_char (drop ?k ?s) = Some x" by (simp add: first_char_def)
    ultimately show False using nw by (simp add: word_opt_def)
  qed
  with eq show "lower t = lower run" by simp
next
  assume eq: "lower t = lower run"
  then have k: "length t = length run" by (rule lower_eq_length)
  with t(1) have rne: "run \<noteq> []" by auto
  from run rne have "isword (last run)" by (rule list_all_last)
  moreover have "\<not> word_opt (first_char rest)" using rest by (rule word_opt_first_char_rest)
  ultimately show "alternative_matches (run @ rest) t"
    using k eq t(1) by (simp add: alternative_matches_def starts_with_ci_iff boundary_def word_opt_def)
qed

lemma alternative_matches_nonword:
  assumes "t \<noteq> []" "list_all isword t" "\<not> isword c"
  shows "\<not> alternative_matches (c # cs) t"
proof
  assume "alternative_matches (c # cs) t"
  then have sw: "starts_with_ci t (c # cs)" by (simp add: alternative_matches_def)
  from assms(1) obtain p ps where t: "t = p # ps" by (cases t) auto
  with sw have "lower_char p = lower_char c" by simp
  moreover from assms(2) t have "isword p" by simp
  ultimately have "isword c" by (metis isword_lower_char)
  with assms(3) show False by simp
qed


lemma match_title_at_run:
  assumes ok: "\<And>t. t \<in> set alts \<Longrightarrow> t \<noteq> [] \<and> list_all isword t"
    and prev: "\<not> word_opt prev"
    and run: "run \<noteq> []" "list_all isword run"
    and rest: "rest = [] \<or> \<not> isword (hd rest)"
  shows "match_title_at alts dot prev (run @ rest) =
           (if lower run \<in> lower ` set alts
            then Some (length run + (if dot \<and> first_char rest = Some CHR ''.'' then 1 else 0))
            else None)"
proof -
  from run have "isword (hd run)" by (cases run) auto
  with run(1) have "word_opt (first_char (run @ rest))"
    by (cases run) (auto simp: word_opt_def first_char_def)
  with prev have b: "boundary prev (first_char (run @ rest))" by (simp add: boundary_def)
  have am: "alternative_matches (run @ rest) t \<longleftrightarrow> lower t = lower run" if "t \<in> set alts" for t
    using ok[OF that] run(2) rest by (intro alternative_matches_run) auto
  show ?thesis
  proof (cases "find (alternative_matches (run @ rest)) alts")
    case None
    then have na: "\<forall>t \<in> set alts. \<not> alternative_matches (run @ rest) t"
      by (simp add: find_None_iff)
    have "lower run \<notin> lower ` set alts"
    proof
      assume "lower run \<in> lower ` set alts"
      then obtain x where x: "x \<in> set alts" "lower run = lower x" by auto
      with am[of x] have "alternative_matches (run @ rest) x" by simp
      with na x(1) show False by simp
    qed
    with None b show ?thesis by (simp add: match_title_at_def)
  next
    case (Some t)
    then have tin: "t \<in> set alts" and "alternative_matches (run @ rest) t"
      by (auto simp: find_Some_iff)
    with am have eq: "lower t = lower run" by simp
    then have "length t = length run" by (rule lower_eq_length)
    moreover from eq tin have "lower run \<in> lower ` set alts" by (metis imageI)
    ultimately show ?thesis using Some b by (simp add: match_title_at_def)
  qed
qed

lemma match_title_at_nonword:
  assumes ok: "\<And>t. t \<in> set alts \<Longrightarrow> t \<noteq> [] \<and> list_all isword t"
    and c: "\<not> isword c"
  shows "match_title_at alts dot prev (c # cs) = None"
proof -
  have "\<forall>t \<in> set alts. \<not> alternative_matches (c # cs) t"
    using ok c alternative_matches_nonword by blast
  then have "find (alternative_matches (c # cs)) alts = None"
    by (simp add: find_None_iff)
  then show ?thesis by (simp add: match_title_at_def)
qed

lemma match_title_at_inside:
  "isword p \<Longrightarrow> isword c \<Longrightarrow> match_title_at alts dot (Some p) (c # cs) = None"
  by (simp add: match_title_at_def boundary_def word_opt_def first_char_def)

lemma sub_titles_nonword:
  assumes ok: "\<And>t. t \<in> set alts \<Longrightarrow> t \<noteq> [] \<and> list_all isword t"
    and c: "\<not> isword c"
  shows "sub_titles alts dot prev (c # cs) = c # sub_titles alts dot (Some c) cs"
  using match_title_at_nonword[OF ok c, of _ dot prev cs] by simp

lemma sub_titles_inside:
  "isword p \<Longrightarrow> list_all isword run \<Longrightarrow>
   sub_titles alts dot (Some p) (run @ rest)
   = run @ sub_titles alts dot (Some (last (p # run))) rest"
proof (induction run arbitrary: p)
  case Nil
  then show ?case by simp
next
  case (Cons c run)
  then have c: "isword c" by simp
  from Cons.prems(1) c have "match_title_at alts dot (Some p) (c # run @ rest) = None"
    by (rule match_title_at_inside)
  moreover from Cons.IH[OF c] Cons.prems(2)
  have "sub_titles alts dot (Some c) (run @ rest)
        = run @ sub_titles alts dot (Some (last (c # run))) rest" by simp
  ultimately show ?case by simp
qed

lemma sub_titles_kept:
  assumes ok: "\<And>t. t \<in> set alts \<Longrightarrow> t \<noteq> [] \<and> list_all isword t"
    and prev: "\<not> word_opt prev"
    and run: "run \<noteq> []" "list_all isword run"
    and rest: "rest = [] \<or> \<not> isword (hd rest)"
    and keep: "lower run \<notin> lower ` set alts"
  shows "sub_titles alts dot prev (run @ rest) = run @ sub_titles alts dot (Some (last run)) rest"
proof -
  from run(1) obtain c r where cr: "run = c # r" by (cases run) auto
  from match_title_at_run[OF ok prev run rest, where dot=dot] keep
  have "match_title_at alts dot prev (c # r @ rest) = None" by (simp add: cr)
  then have "sub_titles alts dot prev (run @ rest) = c # sub_titles alts dot (Some c) (r @ rest)"
    by (simp add: cr)
  also from run(2) cr have "sub_titles alts dot (Some c) (r @ rest)
      = r @ sub_titles alts dot (Some (last (c # r))) rest"
    by (intro sub_titles_inside) auto
  finally show ?thesis by (simp add: cr)
qed

lemma sub_titles_removed:
  assumes ok: "\<And>t. t \<in> set alts \<Longrightarrow> t \<noteq> [] \<and> list_all isword t"
    and prev: "\<not> word_opt prev"
    and run: "run \<noteq> []" "list_all isword run"
    and rest: "rest = [] \<or> \<not> isword (hd rest)"
    and drop: "lower run \<in> lower ` set alts"
  shows "sub_titles alts dot prev (run @ rest) =
           (if dot \<and> first_char rest = Some CHR ''.''
            then sub_titles alts dot (Some CHR ''.'') (tl rest)
            else sub_titles alts dot (Some (last run)) rest)"
proof -
  from run(1) obtain c r where cr: "run = c # r" by (cases run) auto
  let ?n = "length run + (if dot \<and> first_char rest = Some CHR ''.'' then 1 else 0)"
  from match_title_at_run[OF ok prev run rest, where dot=dot] drop
  have m: "match_title_at alts dot prev (c # r @ rest) = Some ?n" by (simp add: cr)
  have n0: "?n \<noteq> 0" using run(1) by simp
  from m n0 have s: "sub_titles alts dot prev (run @ rest)
      = sub_titles alts dot (Some (last (take ?n (run @ rest)))) (drop ?n (run @ rest))"
    by (simp add: cr del: take_Suc_Cons drop_Suc_Cons)
  show ?thesis
  proof (cases "dot \<and> first_char rest = Some CHR ''.''")
    case True
    then obtain ds where r: "rest = CHR ''.'' # ds" by (cases rest) (auto simp: first_char_def)
    have "take (length run + 1) (run @ rest) = run @ [CHR ''.'']" by (simp add: r)
    moreover have "drop (length run + 1) (run @ rest) = ds" by (simp add: r)
    ultimately show ?thesis using s True by (simp add: r)
  next
    case False
    then show ?thesis using s run(1) by auto
  qed
qed


declare sub_titles.simps(2) [simp del]

lemma word_runs_nonword: "\<not> isword c \<Longrightarrow> word_runs (c # cs) = word_runs cs"
  by simp

lemma dropWhile_id: "xs = [] \<or> \<not> P (hd xs) \<Longrightarrow> dropWhile P xs = xs"
  by (cases xs) auto

lemma takeWhile_none: "xs = [] \<or> \<not> P (hd xs) \<Longrightarrow> takeWhile P xs = []"
  by (cases xs) auto

lemma word_runs_run:
  assumes "run \<noteq> []" "list_all isword run" "x = [] \<or> \<not> isword (hd x)"
  shows "word_runs (run @ x) = run # word_runs x"
proof -
  from assms(1) obtain c r where cr: "run = c # r" by (cases run) auto
  with assms(2) have c: "isword c" and r: "\<forall>y \<in> set r. isword y" by (simp_all add: list_all_iff)
  from r have "takeWhile isword (r @ x) = r @ takeWhile isword x" by (simp add: takeWhile_append2)
  with assms(3) have t: "takeWhile isword (r @ x) = r" by (simp add: takeWhile_none)
  from r have "dropWhile isword (r @ x) = dropWhile isword x" by (simp add: dropWhile_append2)
  with assms(3) have d: "dropWhile isword (r @ x) = x" by (simp add: dropWhile_id)
  from c t d show ?thesis by (simp add: cr)
qed

lemma split_run:
  assumes "isword c"
  obtains run rest where "c # cs = run @ rest" "run \<noteq> []" "list_all isword run"
    "rest = [] \<or> \<not> isword (hd rest)" "length rest < length (c # cs)"
proof
  let ?run = "takeWhile isword (c # cs)" and ?rest = "dropWhile isword (c # cs)"
  show "c # cs = ?run @ ?rest" by simp
  show "?run \<noteq> []" using assms by simp
  show "list_all isword ?run" by (simp add: list_all_iff) (metis set_takeWhileD)
  show "?rest = [] \<or> \<not> isword (hd ?rest)" by (metis hd_dropWhile)
  show "length ?rest < length (c # cs)"
    using assms by (simp add: length_dropWhile_le less_Suc_eq_le)
qed

lemma sub_titles_starts_nonword:
  assumes ok: "\<And>t. t \<in> set alts \<Longrightarrow> t \<noteq> [] \<and> list_all isword t"
    and "rest = [] \<or> \<not> isword (hd rest)"
  shows "sub_titles alts dot prev rest = [] \<or> \<not> isword (hd (sub_titles alts dot prev rest))"
proof (cases rest)
  case Nil
  then show ?thesis by simp
next
  case (Cons d ds)
  with assms(2) have "\<not> isword d" by simp
  with sub_titles_nonword[OF ok this] Cons show ?thesis by simp
qed

lemma word_runs_sub_titles:
  assumes ok: "\<And>t. t \<in> set alts \<Longrightarrow> t \<noteq> [] \<and> list_all isword t"
  shows "\<not> word_opt prev \<or> s = [] \<or> \<not> isword (hd s) \<Longrightarrow>
         word_runs (sub_titles alts dot prev s)
         = filter (\<lambda>w. lower w \<notin> lower ` set alts) (word_runs s)"
proof (induction s arbitrary: prev rule: length_induct)
  case (1 s)
  note IH = "1.IH"[rule_format]
  show ?case
  proof (cases s)
    case Nil
    then show ?thesis by simp
  next
    case (Cons c cs)
    show ?thesis
    proof (cases "isword c")
      case False
      have "word_runs (sub_titles alts dot (Some c) cs)
            = filter (\<lambda>w. lower w \<notin> lower ` set alts) (word_runs cs)"
        using False by (intro IH) (simp_all add: Cons word_opt_def)
      with False show ?thesis
        by (simp add: Cons sub_titles_nonword[OF ok False])
    next
      case True
      with "1.prems" Cons have prev: "\<not> word_opt prev" by simp
      from True obtain run rest where sp: "c # cs = run @ rest" "run \<noteq> []"
        "list_all isword run" "rest = [] \<or> \<not> isword (hd rest)" "length rest < length (c # cs)"
        by (rule split_run)
      have ws: "word_runs s = run # word_runs rest"
        unfolding Cons sp(1) using sp(2,3,4) by (rule word_runs_run)
      show ?thesis
      proof (cases "lower run \<in> lower ` set alts")
        case False
        have k: "sub_titles alts dot prev s = run @ sub_titles alts dot (Some (last run)) rest"
          unfolding Cons sp(1) using ok prev sp(2,3,4) False by (rule sub_titles_kept)
        have "word_runs (sub_titles alts dot (Some (last run)) rest)
              = filter (\<lambda>w. lower w \<notin> lower ` set alts) (word_runs rest)"
          using sp(4,5) by (intro IH) (auto simp: Cons)
        moreover have "word_runs (run @ sub_titles alts dot (Some (last run)) rest)
              = run # word_runs (sub_titles alts dot (Some (last run)) rest)"
          using sp(2,3) sub_titles_starts_nonword[OF ok sp(4)] by (rule word_runs_run)
        ultimately show ?thesis using False by (simp add: k ws)
      next
        case True
        have k: "sub_titles alts dot prev s =
           (if dot \<and> first_char rest = Some CHR ''.''
            then sub_titles alts dot (Some CHR ''.'') (tl rest)
            else sub_titles alts dot (Some (last run)) rest)"
          unfolding Cons sp(1) using ok prev sp(2,3,4) True by (rule sub_titles_removed)
        show ?thesis
        proof (cases "dot \<and> first_char rest = Some CHR ''.''")
          case dotc: True
          then obtain ds where r: "rest = CHR ''.'' # ds"
            by (cases rest) (auto simp: first_char_def)
          from k dotc have k': "sub_titles alts dot prev s = sub_titles alts dot (Some CHR ''.'') ds"
            by (simp add: r)
          have "word_runs (sub_titles alts dot (Some CHR ''.'') ds)
                = filter (\<lambda>w. lower w \<notin> lower ` set alts) (word_runs ds)"
            using sp(5) by (intro IH) (auto simp: Cons r word_opt_def dot_not_word)
          with True show ?thesis by (simp add: k' ws r dot_not_word)
        next
          case nodot: False
          from k nodot have k': "sub_titles alts dot prev s
                = sub_titles alts dot (Some (last run)) rest"
            by simp
          have "word_runs (sub_titles alts dot (Some (last run)) rest)
                = filter (\<lambda>w. lower w \<notin> lower ` set alts) (word_runs rest)"
            using sp(4,5) by (intro IH) (auto simp: Cons)
          with True show ?thesis by (simp add: k' ws)
        qed
      qed
    qed
  qed
qed

lemma sub_titles_identity:
  assumes ok: "\<And>t. t \<in> set alts \<Longrightarrow> t \<noteq> [] \<and> list_all isword t"
  shows "\<not> word_opt prev \<or> s = [] \<or> \<not> isword (hd s) \<Longrightarrow>
         \<forall>w \<in> set (word_runs s). lower w \<notin> lower ` set alts \<Longrightarrow>
         sub_titles alts dot prev s = s"
proof (induction s arbitrary: prev rule: length_induct)
  case (1 s)
  note IH = "1.IH"[rule_format]
  show ?case
  proof (cases s)
    case Nil
    then show ?thesis by simp
  next
    case (Cons c cs)
    show ?thesis
    proof (cases "isword c")
      case False
      have "sub_titles alts dot (Some c) cs = cs"
        using False "1.prems"(2) by (intro IH) (simp_all add: Cons word_opt_def)
      then show ?thesis
        by (simp add: Cons sub_titles_nonword[OF ok False])
    next
      case True
      with "1.prems" Cons have prev: "\<not> word_opt prev" by simp
      from True obtain run rest where sp: "c # cs = run @ rest" "run \<noteq> []"
        "list_all isword run" "rest = [] \<or> \<not> isword (hd rest)" "length rest < length (c # cs)"
        by (rule split_run)
      have ws: "word_runs s = run # word_runs rest"
        unfolding Cons sp(1) using sp(2,3,4) by (rule word_runs_run)
      with "1.prems"(2) have keep: "lower run \<notin> lower ` set alts"
        and rk: "\<forall>w \<in> set (word_runs rest). lower w \<notin> lower ` set alts" by simp_all
      have k: "sub_titles alts dot prev s = run @ sub_titles alts dot (Some (last run)) rest"
        unfolding Cons sp(1) using ok prev sp(2,3,4) keep by (rule sub_titles_kept)
      have "sub_titles alts dot (Some (last run)) rest = rest"
        using sp(4,5) rk by (intro IH) (auto simp: Cons)
      with k show ?thesis by (simp add: Cons sp(1))
    qed
  qed
qed

lemma word_runs_dropWhile_space: "word_runs (dropWhile isspace s) = word_runs s"
  by (induction s) (simp_all add: isspace_not_word)

lemma word_runs_append_nonword:
  "\<not> isword c \<Longrightarrow> word_runs (s @ c # r) = word_runs s @ word_runs r"
proof (induction s rule: length_induct)
  case (1 s)
  note IH = "1.IH"[rule_format]
  show ?case
  proof (cases s)
    case Nil
    with "1.prems" show ?thesis by simp
  next
    case (Cons a as)
    show ?thesis
    proof (cases "isword a")
      case False
      with IH[of as] "1.prems" show ?thesis by (simp add: Cons)
    next
      case True
      from True obtain run rest where sp: "a # as = run @ rest" "run \<noteq> []"
        "list_all isword run" "rest = [] \<or> \<not> isword (hd rest)" "length rest < length (a # as)"
        by (rule split_run)
      have r1: "word_runs (run @ rest) = run # word_runs rest"
        using sp(2,3,4) by (rule word_runs_run)
      have "rest @ c # r = [] \<or> \<not> isword (hd (rest @ c # r))"
        using sp(4) "1.prems" by (cases rest) auto
      with sp(2,3) have r2: "word_runs (run @ rest @ c # r) = run # word_runs (rest @ c # r)"
        by (rule word_runs_run)
      have "word_runs (rest @ c # r) = word_runs rest @ word_runs r"
        using sp(5) "1.prems" by (intro IH) (simp_all add: Cons)
      with r1 r2 show ?thesis unfolding Cons sp(1) by simp
    qed
  qed
qed

lemma word_runs_rev_dropWhile_space: "word_runs (rev (dropWhile isspace (rev s))) = word_runs s"
proof (induction s rule: rev_induct)
  case Nil
  then show ?case by simp
next
  case (snoc x xs)
  show ?case
  proof (cases "isspace x")
    case True
    then have "\<not> isword x" by (rule isspace_not_word)
    then have "word_runs (xs @ [x]) = word_runs xs"
      using word_runs_append_nonword[of x xs "[]"] by simp
    with snoc True show ?thesis by simp
  next
    case False
    then show ?thesis by simp
  qed
qed

lemma word_runs_strip: "word_runs (strip s) = word_runs s"
  by (simp add: strip_def rstrip_def lstrip_def word_runs_rev_dropWhile_space
                word_runs_dropWhile_space)

lemma collapse_ws_run:
  "list_all isword run \<Longrightarrow> collapse_ws (run @ rest) = run @ collapse_ws rest"
  by (induction run) (auto dest: isspace_not_word)

lemma collapse_ws_starts_nonword:
  "rest = [] \<or> \<not> isword (hd rest) \<Longrightarrow>
   collapse_ws rest = [] \<or> \<not> isword (hd (collapse_ws rest))"
  by (cases rest) (auto simp: space_not_word)

lemma word_runs_collapse_ws: "word_runs (collapse_ws s) = word_runs s"
proof (induction s rule: length_induct)
  case (1 s)
  note IH = "1.IH"[rule_format]
  show ?case
  proof (cases s)
    case Nil
    then show ?thesis by simp
  next
    case (Cons c cs)
    show ?thesis
    proof (cases "isword c")
      case False
      show ?thesis
      proof (cases "isspace c")
        case True
        have "length (dropWhile isspace cs) < length s"
          by (simp add: Cons length_dropWhile_le less_Suc_eq_le)
        then have "word_runs (collapse_ws (dropWhile isspace cs)) = word_runs (dropWhile isspace cs)"
          by (rule IH)
        with True False show ?thesis
          by (simp add: Cons space_not_word word_runs_dropWhile_space)
      next
        case nsp: False
        with False IH[of cs] show ?thesis by (simp add: Cons)
      qed
    next
      case True
      from True obtain run rest where sp: "c # cs = run @ rest" "run \<noteq> []"
        "list_all isword run" "rest = [] \<or> \<not> isword (hd rest)" "length rest < length (c # cs)"
        by (rule split_run)
      have "word_runs (collapse_ws rest) = word_runs rest"
        using sp(5) by (intro IH) (simp add: Cons)
      moreover have "word_runs (run @ collapse_ws rest) = run # word_runs (collapse_ws rest)"
        using sp(2,3) collapse_ws_starts_nonword[OF sp(4)] by (rule word_runs_run)
      moreover have "word_runs (run @ rest) = run # word_runs rest"
        using sp(2,3,4) by (rule word_runs_run)
      ultimately show ?thesis
        unfolding Cons sp(1) by (simp add: collapse_ws_run[OF sp(3)])
    qed
  qed
qed

lemma has_space_run_Cons:
  "has_space_run (a # x) = ((x \<noteq> [] \<and> isspace a \<and> isspace (hd x)) \<or> has_space_run x)"
  by (cases x) auto

lemma has_space_run_append:
  "has_space_run (xs @ ys) \<longleftrightarrow>
     has_space_run xs \<or> has_space_run ys
     \<or> (xs \<noteq> [] \<and> ys \<noteq> [] \<and> isspace (last xs) \<and> isspace (hd ys))"
proof (induction xs)
  case Nil
  then show ?case by simp
next
  case (Cons a xs)
  show ?case
  proof (cases xs)
    case Nil
    then show ?thesis by (auto simp: has_space_run_Cons)
  next
    case (Cons b bs)
    with Cons.IH show ?thesis by (auto simp: has_space_run_Cons)
  qed
qed

lemma lstrip_suffix: "\<exists>ws. s = ws @ lstrip s"
  unfolding lstrip_def by (metis takeWhile_dropWhile_id)

lemma rstrip_prefix: "\<exists>ws. s = rstrip s @ ws"
proof -
  have "rstrip s @ rev (takeWhile isspace (rev s))
        = rev (takeWhile isspace (rev s) @ dropWhile isspace (rev s))"
    unfolding rstrip_def by (simp only: rev_append)
  also have "\<dots> = s" by (simp only: takeWhile_dropWhile_id rev_rev_ident)
  finally show ?thesis by metis
qed

lemma has_space_run_strip: "has_space_run (strip s) \<Longrightarrow> has_space_run s"
proof -
  assume a: "has_space_run (strip s)"
  obtain w1 where "lstrip s = rstrip (lstrip s) @ w1" using rstrip_prefix by blast
  with a have "has_space_run (lstrip s)"
    unfolding strip_def by (metis has_space_run_append)
  moreover obtain w2 where "s = w2 @ lstrip s" using lstrip_suffix by blast
  ultimately show ?thesis by (metis has_space_run_append)
qed

lemma set_strip: "set (strip s) \<subseteq> set s"
proof -
  have "set (rstrip x) \<subseteq> set x" for x
    unfolding rstrip_def using set_dropWhileD[of _ isspace "rev x"] by auto
  moreover have "set (lstrip x) \<subseteq> set x" for x
    unfolding lstrip_def using set_dropWhileD[of _ isspace x] by auto
  ultimately show ?thesis unfolding strip_def by blast
qed

lemma collapse_ws_hd:
  "x = [] \<or> \<not> isspace (hd x) \<Longrightarrow> collapse_ws x = [] \<or> \<not> isspace (hd (collapse_ws x))"
  by (cases x) auto

lemma collapse_ws_no_run: "\<not> has_space_run (collapse_ws s)"
proof (induction s rule: collapse_ws.induct)
  case 1
  then show ?case by simp
next
  case (2 c cs)
  show ?case
  proof (cases "isspace c")
    case True
    have "dropWhile isspace cs = [] \<or> \<not> isspace (hd (dropWhile isspace cs))"
      by (metis hd_dropWhile)
    from collapse_ws_hd[OF this] 2(1)[OF True] True show ?thesis
      by (auto simp: has_space_run_Cons)
  next
    case False
    with 2(2)[OF False] show ?thesis by (simp add: has_space_run_Cons)
  qed
qed

lemma collapse_ws_plain: "c \<in> set (collapse_ws s) \<Longrightarrow> isspace c \<Longrightarrow> c = CHR '' ''"
proof (induction s rule: collapse_ws.induct)
  case 1
  then show ?case by simp
next
  case (2 a as)
  then show ?case by (cases "isspace a") auto
qed

lemma set_collapse_ws: "set (collapse_ws s) \<subseteq> insert CHR '' '' (set s)"
proof (induction s rule: collapse_ws.induct)
  case 1
  then show ?case by simp
next
  case (2 a as)
  show ?case
  proof (cases "isspace a")
    case True
    from 2(1)[OF True] set_dropWhileD[of _ isspace as] True show ?thesis by auto
  next
    case False
    from 2(2)[OF False] False show ?thesis by auto
  qed
qed

lemma collapse_ws_identity:
  "\<not> has_space_run y \<Longrightarrow> \<forall>c \<in> set y. isspace c \<longrightarrow> c = CHR '' '' \<Longrightarrow> collapse_ws y = y"
proof (induction y)
  case Nil
  then show ?case by simp
next
  case (Cons c cs)
  from Cons.prems have ih: "collapse_ws cs = cs"
    by (intro Cons.IH) (auto simp: has_space_run_Cons)
  show ?case
  proof (cases "isspace c")
    case True
    with Cons.prems have "c = CHR '' ''" by simp
    moreover from True Cons.prems(1) have "cs = [] \<or> \<not> isspace (hd cs)"
      by (auto simp: has_space_run_Cons)
    then have "dropWhile isspace cs = cs" by (rule dropWhile_id)
    ultimately show ?thesis using True ih by simp
  next
    case False
    with ih show ?thesis by simp
  qed
qed

lemma set_sub_titles: "set (sub_titles alts dot prev s) \<subseteq> set s"
proof (induction s arbitrary: prev rule: length_induct)
  case (1 s)
  note IH = "1.IH"[rule_format]
  show ?case
  proof (cases s)
    case Nil
    then show ?thesis by simp
  next
    case (Cons c cs)
    have a: "set (sub_titles alts dot (Some c) cs) \<subseteq> set cs"
      by (rule IH) (simp add: Cons)
    have b: "set (sub_titles alts dot p (drop n (c # cs))) \<subseteq> set (c # cs)" if "n \<noteq> 0" for n p
    proof -
      from that have "length (drop n (c # cs)) < length s" by (simp add: Cons)
      then have "set (sub_titles alts dot p (drop n (c # cs))) \<subseteq> set (drop n (c # cs))"
        by (rule IH)
      also have "\<dots> \<subseteq> set (c # cs)" by (rule set_drop_subset)
      finally show ?thesis .
    qed
    show ?thesis
    proof (cases "match_title_at alts dot prev (c # cs)")
      case None
      with a show ?thesis by (auto simp: Cons sub_titles.simps(2))
    next
      case (Some n)
      show ?thesis
      proof (cases "n = 0")
        case True
        with Some a show ?thesis by (auto simp: Cons sub_titles.simps(2))
      next
        case False
        from b[OF False] Some False show ?thesis
          by (simp add: Cons sub_titles.simps(2))
      qed
    qed
  qed
qed

lemma short_titles_ok: "t \<in> set short_titles \<Longrightarrow> t \<noteq> [] \<and> list_all isword t"
proof -
  have "list_all (\<lambda>t. t \<noteq> [] \<and> list_all isword t) short_titles" by code_simp
  then show "t \<in> set short_titles \<Longrightarrow> t \<noteq> [] \<and> list_all isword t"
    by (simp add: list_all_iff)
qed

lemma long_titles_ok: "t \<in> set long_titles \<Longrightarrow> t \<noteq> [] \<and> list_all isword t"
proof -
  have "list_all (\<lambda>t. t \<noteq> [] \<and> list_all isword t) long_titles" by code_simp
  then show "t \<in> set long_titles \<Longrightarrow> t \<noteq> [] \<and> list_all isword t"
    by (simp add: list_all_iff)
qed

lemma honorifics_titles: "t \<in> set honorifics \<Longrightarrow> t \<in> set short_titles \<or> t \<in> set long_titles"
  by (auto simp: honorifics_def short_titles_def long_titles_def)

lemma word_opt_None: "\<not> word_opt None"
  by (simp add: word_opt_def)

lemma word_runs_re_sub_titles:
  assumes "\<And>t. t \<in> set alts \<Longrightarrow> t \<noteq> [] \<and> list_all isword t"
  shows "word_runs (re_sub_titles alts dot s)
         = filter (\<lambda>w. lower w \<notin> lower ` set alts) (word_runs s)"
  unfolding re_sub_titles_def
  by (rule word_runs_sub_titles[OF assms]) (simp_all add: word_opt_None)

lemma re_sub_titles_identity:
  assumes "\<And>t. t \<in> set alts \<Longrightarrow> t \<noteq> [] \<and> list_all isword t"
    and "\<forall>w \<in> set (word_runs s). lower w \<notin> lower ` set alts"
  shows "re_sub_titles alts dot s = s"
  unfolding re_sub_titles_def
  by (rule sub_titles_identity[OF assms(1)]) (simp_all add: word_opt_None assms(2))

lemma preprocess_name_str:
  "preprocess_name (PStr n)
   = strip (collapse_ws (strip (re_sub_titles long_titles False
        (strip (re_sub_titles short_titles True (lower n))))))"
  by (simp add: preprocess_name_def Let_def)

lemma word_runs_preprocess_name:
  "word_runs (preprocess_name (PStr n))
   = filter (\<lambda>w. lower w \<notin> lower ` set long_titles)
       (filter (\<lambda>w. lower w \<notin> lower ` set short_titles) (word_runs (lower n)))"
  by (simp only: preprocess_name_str word_runs_strip word_runs_collapse_ws
                 word_runs_re_sub_titles[OF long_titles_ok]
                 word_runs_re_sub_titles[OF short_titles_ok])

lemma preprocess_name_words:
  assumes "w \<in> set (word_runs (preprocess_name (PStr n)))"
  shows "lower w \<notin> lower ` set short_titles" and "lower w \<notin> lower ` set long_titles"
  using assms unfolding word_runs_preprocess_name by simp_all

lemma preprocess_name_no_run: "\<not> has_space_run (preprocess_name (PStr n))"
  unfolding preprocess_name_str using collapse_ws_no_run has_space_run_strip by blast

lemma preprocess_name_plain:
  "c \<in> set (preprocess_name (PStr n)) \<Longrightarrow> isspace c \<Longrightarrow> c = CHR '' ''"
  unfolding preprocess_name_str using set_strip collapse_ws_plain by blast

lemma preprocess_name_lower: "lower (preprocess_name (PStr n)) = preprocess_name (PStr n)"
proof -
  have "lower_char c = c" if "c \<in> set (preprocess_name (PStr n))" for c
  proof -
    let ?a = "re_sub_titles short_titles True (lower n)"
    let ?b = "re_sub_titles long_titles False (strip ?a)"
    from that have "c \<in> set (collapse_ws (strip ?b))"
      unfolding preprocess_name_str using set_strip by blast
    then have "c = CHR '' '' \<or> c \<in> set (strip ?b)" using set_collapse_ws by blast
    moreover have "set (strip ?b) \<subseteq> set ?b" by (rule set_strip)
    moreover have "set ?b \<subseteq> set (strip ?a)" unfolding re_sub_titles_def by (rule set_sub_titles)
    moreover have "set (strip ?a) \<subseteq> set ?a" by (rule set_strip)
    moreover have "set ?a \<subseteq> set (lower n)" unfolding re_sub_titles_def by (rule set_sub_titles)
    ultimately have "c = CHR '' '' \<or> c \<in> set (lower n)" by blast
    then show ?thesis
      by (auto simp: lower_def lower_char_space lower_char_idem)
  qed
  then show ?thesis by (simp add: lower_def map_idI)
qed

text \<open>
  C7. For an argument that is not a string \<open>preprocess_name\<close> returns the empty
  string. For a string, no honorific of the list (lic, dr, ing, sr, sra, srta,
  licenciado, doctor, ingeniero, maestro) is a word of the result, a word being a
  maximal run of word characters, that is, what \<open>\b...\b\<close> delimits; and the result
  has no two whitespace characters in a row.
\<close>

theorem preprocess_name_normal_form:
  "((\<forall>n. v \<noteq> PStr n) \<longrightarrow> preprocess_name v = [])
   \<and> (\<forall>t \<in> set honorifics. t \<notin> set (word_runs (preprocess_name (PStr n))))
   \<and> \<not> has_space_run (preprocess_name (PStr n))"
proof -
  have a: "preprocess_name v = []" if "\<forall>n. v \<noteq> PStr n"
    using that by (cases v) (simp_all add: preprocess_name_def)
  have b: "t \<notin> set (word_runs (preprocess_name (PStr n)))" if t: "t \<in> set honorifics" for t
  proof
    assume "t \<in> set (word_runs (preprocess_name (PStr n)))"
    then have "lower t \<notin> lower ` set short_titles" and "lower t \<notin> lower ` set long_titles"
      by (rule preprocess_name_words)+
    with honorifics_titles[OF t] show False by blast
  qed
  from a b preprocess_name_no_run show ?thesis by blast
qed

theorem preprocess_name_normal_form_witness:
  "preprocess_name (PInt 3) = []
   \<and> ''lic'' \<notin> set (word_runs (preprocess_name (PStr ''Lic. Maria  Lopez'')))
   \<and> \<not> has_space_run (preprocess_name (PStr ''Lic. Maria  Lopez''))"
proof -
  have "''lic'' \<in> set honorifics" by (simp add: honorifics_def)
  with preprocess_name_normal_form [of "PInt 3" "''Lic. Maria  Lopez''"]
  show ?thesis by simp
qed

text \<open>
  C8. \<open>preprocess_name\<close> is idempotent: applied to its own result, for any argument,
  string or not, it returns that result.
\<close>

theorem preprocess_name_idempotent:
  "preprocess_name (PStr (preprocess_name v)) = preprocess_name v"
proof (cases "\<exists>n. v = PStr n")
  case False
  then have "preprocess_name v = []" by (cases v) (simp_all add: preprocess_name_def)
  moreover have "preprocess_name (PStr []) = []" by code_simp
  ultimately show ?thesis by simp
next
  case True
  then obtain n where v: "v = PStr n" by blast
  let ?y = "preprocess_name (PStr n)"
  have l: "lower ?y = ?y" by (rule preprocess_name_lower)
  have s: "strip ?y = ?y" unfolding preprocess_name_str by (rule strip_strip)
  have r1: "re_sub_titles short_titles True ?y = ?y"
    using short_titles_ok preprocess_name_words(1) by (intro re_sub_titles_identity) blast+
  have r2: "re_sub_titles long_titles False ?y = ?y"
    using long_titles_ok preprocess_name_words(2) by (intro re_sub_titles_identity) blast+
  have c: "collapse_ws ?y = ?y"
    using preprocess_name_no_run preprocess_name_plain by (intro collapse_ws_identity) blast+
  have "preprocess_name (PStr ?y) = ?y"
    unfolding preprocess_name_str[of ?y] l r1 s r2 c ..
  then show ?thesis by (simp add: v)
qed

theorem preprocess_name_idempotent_witness:
  "preprocess_name (PStr (preprocess_name (PStr ''Lic. Maria  Lopez''))) = ''maria lopez''"
proof -
  have "preprocess_name (PStr ''Lic. Maria  Lopez'') = ''maria lopez''" by code_simp
  with preprocess_name_idempotent [of "PStr ''Lic. Maria  Lopez''"]
  show ?thesis by simp
qed

section \<open>Properties of the worksheet validator\<close>

lemma key_at_nonempty: "key_at s = Some k \<Longrightarrow> k \<noteq> []"
  by (auto simp: key_at_def Let_def split: if_splits)

lemma extract_sheet_key_nonempty: "extract_sheet_key_from_url u = Some k \<Longrightarrow> k \<noteq> []"
  by (induction u) (auto split: option.splits dest: key_at_nonempty)

text \<open>
  C4. When no key can be extracted from the URL, \<open>find_valid_teacher_worksheets\<close>
  raises \<open>ValueError\<close> and has called nothing of the spreadsheet service. When the key
  is found, the client and the spreadsheet are obtained and an exception is raised
  while the worksheets are listed and checked, an \<open>ImportError\<close> comes out as it is,
  and any other exception that \<open>except Exception\<close> catches comes out as one
  \<open>RuntimeError\<close>, raised from it, whose message ends with the spreadsheet key.
\<close>

theorem invalid_reference_and_wrapping:
  "(extract_sheet_key_from_url sheet_url = None \<longrightarrow>
      find_valid_teacher_worksheets sv sheet_url path hc ehv tnc th
      = (Inl (Exn ValueError (''Could not extract valid sheet key from URL: '' @ sheet_url) None),
         []))
   \<and> (extract_sheet_key_from_url sheet_url = Some k \<and> authorize sv path = Inr gc
        \<and> open_by_key gc k = Inr sh
        \<and> iterate_worksheets sv hc ehv tnc th
             (preprocess_name (PStr (strip (takeWhile (\<lambda>c. c \<noteq> CHR ''_'') (strip (title sh))))))
             sh [Authorize path, OpenByKey k] = (Inl e, calls)
      \<longrightarrow> (is_ImportError e \<longrightarrow>
             find_valid_teacher_worksheets sv sheet_url path hc ehv tnc th = (Inl e, calls))
          \<and> (\<not> is_ImportError e \<and> is_Exception e \<longrightarrow>
             find_valid_teacher_worksheets sv sheet_url path hc ehv tnc th
             = (Inl (Exn RuntimeError (''Error processing worksheets in sheet '' @ k) (Some e)),
                calls)))"
proof (intro conjI impI)
  assume "extract_sheet_key_from_url sheet_url = None"
  then show "find_valid_teacher_worksheets sv sheet_url path hc ehv tnc th
      = (Inl (Exn ValueError (''Could not extract valid sheet key from URL: '' @ sheet_url) None),
         [])"
    by (simp add: find_valid_teacher_worksheets_def)
next
  assume a: "extract_sheet_key_from_url sheet_url = Some k \<and> authorize sv path = Inr gc
        \<and> open_by_key gc k = Inr sh
        \<and> iterate_worksheets sv hc ehv tnc th
             (preprocess_name (PStr (strip (takeWhile (\<lambda>c. c \<noteq> CHR ''_'') (strip (title sh))))))
             sh [Authorize path, OpenByKey k] = (Inl e, calls)"
  then have k: "k \<noteq> []" using extract_sheet_key_nonempty by blast
  from a k have r: "find_valid_teacher_worksheets sv sheet_url path hc ehv tnc th
                    = (Inl (handle_iteration_error k e), calls)"
    by (simp add: find_valid_teacher_worksheets_def Let_def)
  {
    assume "is_ImportError e"
    with r show "find_valid_teacher_worksheets sv sheet_url path hc ehv tnc th = (Inl e, calls)"
      by (simp add: handle_iteration_error_def)
  }
  {
    assume "\<not> is_ImportError e \<and> is_Exception e"
    with r show "find_valid_teacher_worksheets sv sheet_url path hc ehv tnc th
             = (Inl (Exn RuntimeError (''Error processing worksheets in sheet '' @ k) (Some e)),
                calls)"
      by (simp add: handle_iteration_error_def)
  }
qed

lemma example_url_key: "extract_sheet_key_from_url example_url = Some ''ABC123-xyz''"
  by code_simp

lemma no_key: "extract_sheet_key_from_url ''https://example.com'' = None"
  by code_simp

lemma failing_iteration:
  "iterate_worksheets failing_services ''E3'' ''DOCENTE'' ''E4'' 80 n failing_spreadsheet cs
   = (Inl quota_error, cs @ [Worksheets, GetValue ''4TO'' ''E3''])"
  by (simp add: iterate_worksheets_def failing_spreadsheet_def failing_worksheet_def)

lemma unavailable_iteration:
  "iterate_worksheets unavailable_services ''E3'' ''DOCENTE'' ''E4'' 80
     (preprocess_name (PStr (strip (takeWhile (\<lambda>c. c \<noteq> CHR ''_'')
                                      (strip (title matching_spreadsheet))))))
     matching_spreadsheet [Authorize ''key.json'', OpenByKey ''ABC123-xyz'']
   = (Inl import_error,
      [Authorize ''key.json'', OpenByKey ''ABC123-xyz'', Worksheets, GetValue ''4TO'' ''E3'',
       GetValue ''4TO'' ''E4'', TokenSetRatio ''maria lopez'' ''maria lopez''])"
  by code_simp

theorem invalid_reference_and_wrapping_witness:
  "find_valid_teacher_worksheets failing_services ''https://example.com'' ''key.json''
     ''E3'' ''DOCENTE'' ''E4'' 80
   = (Inl (Exn ValueError
             ''Could not extract valid sheet key from URL: https://example.com'' None), [])
   \<and> find_valid_teacher_worksheets failing_services example_url ''key.json''
       ''E3'' ''DOCENTE'' ''E4'' 80
     = (Inl (Exn RuntimeError ''Error processing worksheets in sheet ABC123-xyz''
               (Some quota_error)),
        [Authorize ''key.json'', OpenByKey ''ABC123-xyz'', Worksheets, GetValue ''4TO'' ''E3''])
   \<and> find_valid_teacher_worksheets unavailable_services example_url ''key.json''
       ''E3'' ''DOCENTE'' ''E4'' 80
     = (Inl import_error,
        [Authorize ''key.json'', OpenByKey ''ABC123-xyz'', Worksheets, GetValue ''4TO'' ''E3'',
         GetValue ''4TO'' ''E4'', TokenSetRatio ''maria lopez'' ''maria lopez''])"
proof -
  have a: "authorize failing_services ''key.json''
           = Inr \<lparr>open_by_key = (\<lambda>k. Inr failing_spreadsheet)\<rparr>"
    by (simp add: failing_services_def)
  have q: "\<not> is_ImportError quota_error \<and> is_Exception quota_error"
    by (simp add: quota_error_def)
  from invalid_reference_and_wrapping
         [where sheet_url = "''https://example.com''" and sv = failing_services
            and path = "''key.json''" and hc = "''E3''" and ehv = "''DOCENTE''"
            and tnc = "''E4''" and th = 80] no_key
  have 1: "find_valid_teacher_worksheets failing_services ''https://example.com'' ''key.json''
     ''E3'' ''DOCENTE'' ''E4'' 80
   = (Inl (Exn ValueError
             ''Could not extract valid sheet key from URL: https://example.com'' None), [])"
    by simp
  from invalid_reference_and_wrapping
         [where sheet_url = example_url and sv = failing_services
            and path = "''key.json''" and hc = "''E3''" and ehv = "''DOCENTE''"
            and tnc = "''E4''" and th = 80 and k = "''ABC123-xyz''"
            and gc = "\<lparr>open_by_key = (\<lambda>k. Inr failing_spreadsheet)\<rparr>"
            and sh = failing_spreadsheet and e = quota_error
            and calls = "[Authorize ''key.json'', OpenByKey ''ABC123-xyz'', Worksheets,
                          GetValue ''4TO'' ''E3'']"]
       example_url_key a q failing_iteration
  have 2: "find_valid_teacher_worksheets failing_services example_url ''key.json''
       ''E3'' ''DOCENTE'' ''E4'' 80
     = (Inl (Exn RuntimeError ''Error processing worksheets in sheet ABC123-xyz''
               (Some quota_error)),
        [Authorize ''key.json'', OpenByKey ''ABC123-xyz'', Worksheets, GetValue ''4TO'' ''E3''])"
    by simp
  have a': "authorize unavailable_services ''key.json''
            = Inr \<lparr>open_by_key = (\<lambda>k. Inr matching_spreadsheet)\<rparr>"
    by (simp add: unavailable_services_def)
  have i: "is_ImportError import_error" by (simp add: import_error_def)
  from invalid_reference_and_wrapping
         [where sheet_url = example_url and sv = unavailable_services
            and path = "''key.json''" and hc = "''E3''" and ehv = "''DOCENTE''"
            and tnc = "''E4''" and th = 80 and k = "''ABC123-xyz''"
            and gc = "\<lparr>open_by_key = (\<lambda>k. Inr matching_spreadsheet)\<rparr>"
            and sh = matching_spreadsheet and e = import_error
            and calls = "[Authorize ''key.json'', OpenByKey ''ABC123-xyz'', Worksheets,
                          GetValue ''4TO'' ''E3'', GetValue ''4TO'' ''E4'',
                          TokenSetRatio ''maria lopez'' ''maria lopez'']"]
       example_url_key a' i unavailable_iteration
  have 3: "find_valid_teacher_worksheets unavailable_services example_url ''key.json''
       ''E3'' ''DOCENTE'' ''E4'' 80
     = (Inl import_error,
        [Authorize ''key.json'', OpenByKey ''ABC123-xyz'', Worksheets, GetValue ''4TO'' ''E3'',
         GetValue ''4TO'' ''E4'', TokenSetRatio ''maria lopez'' ''maria lopez''])"
    by simp
  from 1 2 3 show ?thesis by simp
qed

end
